theory Spec2Isabelle
  imports Complex_Main "HOL-Library.Word"
begin

section \<open>JavaScript numbers\<close>

text \<open>
  A JavaScript number is a double: NaN, one of the two infinities, or a finite value.
  Finite values are embedded in the reals. The two signed zeros are identified: the
  comparisons \<^verbatim>\<open>===\<close>, \<^verbatim>\<open><\<close>, \<^verbatim>\<open>>\<close> and the store into an \<^verbatim>\<open>Int16Array\<close> treat them
  alike, and the arithmetic is modelled up to the sign of a zero. Every comparison with
  NaN is false.
\<close>

datatype jsnum = NaN | NegInf | Fin real | PosInf

fun js_lt :: "jsnum \<Rightarrow> jsnum \<Rightarrow> bool" where
  "js_lt NaN _ = False"
| "js_lt _ NaN = False"
| "js_lt (Fin a) (Fin b) = (a < b)"
| "js_lt NegInf NegInf = False"
| "js_lt NegInf _ = True"
| "js_lt _ NegInf = False"
| "js_lt PosInf _ = False"
| "js_lt _ PosInf = True"

definition js_gt :: "jsnum \<Rightarrow> jsnum \<Rightarrow> bool" where
  "js_gt a b = js_lt b a"

text \<open>Strict equality \<^verbatim>\<open>===\<close> on numbers: NaN differs from everything, itself included.\<close>

fun js_eq :: "jsnum \<Rightarrow> jsnum \<Rightarrow> bool" where
  "js_eq NaN _ = False"
| "js_eq _ NaN = False"
| "js_eq a b = (a = b)"

text \<open>\<^verbatim>\<open>Math.min\<close> and \<^verbatim>\<open>Math.max\<close> of two numbers: NaN if either is NaN.\<close>

fun js_min :: "jsnum \<Rightarrow> jsnum \<Rightarrow> jsnum" where
  "js_min NaN _ = NaN"
| "js_min _ NaN = NaN"
| "js_min a b = (if js_lt b a then b else a)"

fun js_max :: "jsnum \<Rightarrow> jsnum \<Rightarrow> jsnum" where
  "js_max NaN _ = NaN"
| "js_max _ NaN = NaN"
| "js_max a b = (if js_lt a b then b else a)"

section \<open>Zero-cross search\<close>

text \<open>
  A read \<^verbatim>\<open>samples[i]\<close> of a \<^verbatim>\<open>Float32Array\<close> outside \<open>0 \<le> i < n\<close> yields
  \<^verbatim>\<open>undefined\<close>, which fails \<^verbatim>\<open>=== 0\<close> and, converted to NaN, every
  \<^verbatim>\<open><\<close> and \<^verbatim>\<open>>\<close>: it is read as NaN here.
\<close>

definition sampleAt :: "jsnum list \<Rightarrow> int \<Rightarrow> jsnum" where
  "sampleAt samples i = (if 0 \<le> i \<and> i < int (length samples) then samples ! nat i else NaN)"

text \<open>The test of line 23: a sample is zero, or the pair changes sign.\<close>

definition isZeroCross :: "jsnum \<Rightarrow> jsnum \<Rightarrow> bool" where
  "isZeroCross s1 s2 =
     (js_eq s1 (Fin 0) \<or> js_eq s2 (Fin 0) \<or>
      (js_gt s1 (Fin 0) \<and> js_lt s2 (Fin 0)) \<or> (js_lt s1 (Fin 0) \<and> js_gt s2 (Fin 0)))"

text \<open>
  \<open>bestDist\<close> starts as \<^verbatim>\<open>Infinity\<close> (\<open>None\<close>) and holds an integer distance afterwards;
  \<open>distLess\<close> is the test \<^verbatim>\<open>dist < bestDist\<close>.
\<close>

fun distLess :: "int \<Rightarrow> int option \<Rightarrow> bool" where
  "distLess d None = True"
| "distLess d (Some b) = (d < b)"

text \<open>
  The loop of lines 19 to 31, from the index \<open>i\<close> with the current \<open>bestIndex\<close> and
  \<open>bestDist\<close>; it returns the final \<open>bestIndex\<close>.
\<close>

function zcLoop :: "jsnum list \<Rightarrow> int \<Rightarrow> int \<Rightarrow> int \<Rightarrow> int \<Rightarrow> int option \<Rightarrow> int" where
  "zcLoop samples targetIndex end i bestIndex bestDist =
     (if i \<le> end then
        (if isZeroCross (sampleAt samples i) (sampleAt samples (i + 1)) then
           (let dist = \<bar>i - targetIndex\<bar> in
            if distLess dist bestDist
            then zcLoop samples targetIndex end (i + 1) i (Some dist)
            else zcLoop samples targetIndex end (i + 1) bestIndex bestDist)
         else zcLoop samples targetIndex end (i + 1) bestIndex bestDist)
      else bestIndex)"
  by pat_completeness auto
termination
  by (relation "measure (\<lambda>(samples, targetIndex, end, i, bestIndex, bestDist). nat (end + 1 - i))") auto

declare zcLoop.simps [simp del]

text \<open>
  \<^verbatim>\<open>findNearestZeroCross(samples, targetIndex, searchRadius)\<close> for an integer target and an
  integer radius (JavaScript's integers are taken as unbounded).
\<close>

definition findNearestZeroCross :: "jsnum list \<Rightarrow> int \<Rightarrow> int \<Rightarrow> int" where
  "findNearestZeroCross samples targetIndex searchRadius =
     (let n = int (length samples) in
      if n < 2 then targetIndex
      else
        (let start = max 0 (targetIndex - searchRadius);
             end = min (n - 2) (targetIndex + searchRadius)
         in zcLoop samples targetIndex end start targetIndex None))"

text \<open>The scan window of a call, and the crossings in it.\<close>

definition windowLo :: "int \<Rightarrow> int \<Rightarrow> int" where
  "windowLo targetIndex searchRadius = max 0 (targetIndex - searchRadius)"

definition windowHi :: "jsnum list \<Rightarrow> int \<Rightarrow> int \<Rightarrow> int" where
  "windowHi samples targetIndex searchRadius =
     min (int (length samples) - 2) (targetIndex + searchRadius)"

definition crossingAt :: "jsnum list \<Rightarrow> int \<Rightarrow> bool" where
  "crossingAt samples i = isZeroCross (sampleAt samples i) (sampleAt samples (i + 1))"

definition crossingInWindow :: "jsnum list \<Rightarrow> int \<Rightarrow> int \<Rightarrow> int \<Rightarrow> bool" where
  "crossingInWindow samples targetIndex searchRadius i =
     (windowLo targetIndex searchRadius \<le> i \<and> i \<le> windowHi samples targetIndex searchRadius
      \<and> crossingAt samples i)"


text \<open>
  \<open>nearestIn samples t lo hi r\<close>: \<open>r\<close> is a crossing of \<open>[lo, hi]\<close> at the least distance
  from \<open>t\<close>, and the lowest index among the crossings at that distance.
\<close>

definition nearestIn :: "jsnum list \<Rightarrow> int \<Rightarrow> int \<Rightarrow> int \<Rightarrow> int \<Rightarrow> bool" where
  "nearestIn samples t lo hi r =
     (lo \<le> r \<and> r \<le> hi \<and> crossingAt samples r \<and>
      (\<forall>k. lo \<le> k \<and> k \<le> hi \<and> crossingAt samples k \<longrightarrow>
         \<bar>r - t\<bar> \<le> \<bar>k - t\<bar> \<and> (\<bar>k - t\<bar> = \<bar>r - t\<bar> \<longrightarrow> r \<le> k)))"

definition noBetter :: "jsnum list \<Rightarrow> int \<Rightarrow> int \<Rightarrow> int \<Rightarrow> int option \<Rightarrow> bool" where
  "noBetter samples t lo hi bd =
     (\<forall>k. lo \<le> k \<and> k \<le> hi \<and> crossingAt samples k \<longrightarrow> \<not> distLess \<bar>k - t\<bar> bd)"

section \<open>Quantization to 16-bit PCM\<close>

type_synonym byte = "8 word"
type_synonym int16 = "16 word"

text \<open>
  The product of two numbers. On finite operands it is the exact product: in
  \<^verbatim>\<open>s * 0x8000\<close> and \<^verbatim>\<open>s * 0x7fff\<close> the operand \<open>s\<close> is an element of a
  \<^verbatim>\<open>Float32Array\<close> clamped to \<open>[-1, 1]\<close>, a value with a 24-bit significand, so the
  product with a 16-bit constant has at most 40 significant bits and the double holds it
  without rounding.
\<close>

fun js_mul :: "jsnum \<Rightarrow> jsnum \<Rightarrow> jsnum" where
  "js_mul NaN _ = NaN"
| "js_mul _ NaN = NaN"
| "js_mul (Fin a) (Fin b) = Fin (a * b)"
| "js_mul (Fin a) PosInf = (if 0 < a then PosInf else if a < 0 then NegInf else NaN)"
| "js_mul (Fin a) NegInf = (if 0 < a then NegInf else if a < 0 then PosInf else NaN)"
| "js_mul PosInf (Fin b) = (if 0 < b then PosInf else if b < 0 then NegInf else NaN)"
| "js_mul NegInf (Fin b) = (if 0 < b then NegInf else if b < 0 then PosInf else NaN)"
| "js_mul PosInf PosInf = PosInf"
| "js_mul NegInf NegInf = PosInf"
| "js_mul PosInf NegInf = NegInf"
| "js_mul NegInf PosInf = NegInf"

text \<open>Truncation towards zero, the integer part of a finite number.\<close>

definition js_trunc :: "real \<Rightarrow> int" where
  "js_trunc x = (if x < 0 then \<lceil>x\<rceil> else \<lfloor>x\<rfloor>)"

text \<open>
  The store of a number into an \<^verbatim>\<open>Int16Array\<close> (ToInt16): NaN and the infinities
  become 0, a finite number is truncated and taken modulo \<open>2 ^ 16\<close>; \<open>sint\<close> reads the
  element back.
\<close>

fun toInt16 :: "jsnum \<Rightarrow> int16" where
  "toInt16 (Fin x) = word_of_int (js_trunc x)"
| "toInt16 _ = 0"

text \<open>
  The body of the loops of lines 59 to 62 and 119 to 122 (the two are the same text):
  the number stored into \<open>pcm16[i]\<close>, before and after the store.
\<close>

definition clampSample :: "jsnum \<Rightarrow> jsnum" where
  "clampSample x = js_max (Fin (- 1)) (js_min (Fin 1) x)"

definition scaleSample :: "jsnum \<Rightarrow> jsnum" where
  "scaleSample x =
     (let s = clampSample x
      in if js_lt s (Fin 0) then js_mul s (Fin 32768) else js_mul s (Fin 32767))"

definition quantizeSample :: "jsnum \<Rightarrow> int16" where
  "quantizeSample x = toInt16 (scaleSample x)"

definition toPcm16 :: "jsnum list \<Rightarrow> int16 list" where
  "toPcm16 samples = map quantizeSample samples"

text \<open>
  The scale in the words of the specification, for a clamped value: a negative value is
  multiplied by 32768, any other value by 32767.
\<close>

definition pcmScale :: "real \<Rightarrow> real" where
  "pcmScale c = (if c < 0 then c * 32768 else c * 32767)"

section \<open>The WAV writer\<close>

text \<open>
  What a function of \<^verbatim>\<open>main.js\<close> throws: the \<^verbatim>\<open>RangeError\<close> and
  \<^verbatim>\<open>IndexSizeError\<close> of the typed arrays and of the audio buffer, the two errors
  of lines 101 and 112 (their messages are fixed texts), and whatever a collaborator
  outside the file (the decoder, an encoder) throws, with its message.
\<close>

datatype exn = RangeError | IndexSizeError | OggVorbisEncoderMissing | LamejsMissing
  | Thrown string

text \<open>
  An \<^verbatim>\<open>ArrayBuffer\<close> is its list of bytes. The setters of a \<^verbatim>\<open>DataView\<close> write
  little-endian (every call passes \<^verbatim>\<open>true\<close>), reduce the value modulo the width of the
  field, and throw a \<^verbatim>\<open>RangeError\<close> when the field does not lie inside the buffer.
\<close>

definition setBytes :: "nat \<Rightarrow> byte list \<Rightarrow> byte list \<Rightarrow> exn + byte list" where
  "setBytes off bs ab =
     (if off + length bs \<le> length ab
      then Inr (take off ab @ bs @ drop (off + length bs) ab)
      else Inl RangeError)"

definition le16 :: "nat \<Rightarrow> byte list" where
  "le16 v = [word_of_nat v, word_of_nat (v div 256)]"

definition le32 :: "nat \<Rightarrow> byte list" where
  "le32 v = [word_of_nat v, word_of_nat (v div 256), word_of_nat (v div 65536),
             word_of_nat (v div 16777216)]"

definition int16Bytes :: "int16 \<Rightarrow> byte list" where
  "int16Bytes w = [ucast w, ucast (drop_bit 8 w)]"

definition setUint8 :: "nat \<Rightarrow> nat \<Rightarrow> byte list \<Rightarrow> exn + byte list" where
  "setUint8 off v ab = setBytes off [word_of_nat v] ab"

definition setUint16 :: "nat \<Rightarrow> nat \<Rightarrow> byte list \<Rightarrow> exn + byte list" where
  "setUint16 off v ab = setBytes off (le16 v) ab"

definition setUint32 :: "nat \<Rightarrow> nat \<Rightarrow> byte list \<Rightarrow> exn + byte list" where
  "setUint32 off v ab = setBytes off (le32 v) ab"

definition setInt16 :: "nat \<Rightarrow> int16 \<Rightarrow> byte list \<Rightarrow> exn + byte list" where
  "setInt16 off w ab = setBytes off (int16Bytes w) ab"

text \<open>\<^verbatim>\<open>writeString(off, str)\<close>, lines 70 to 74: one \<^verbatim>\<open>setUint8\<close> per character.\<close>

fun writeString :: "nat \<Rightarrow> string \<Rightarrow> byte list \<Rightarrow> exn + byte list" where
  "writeString off [] ab = Inr ab"
| "writeString off (c # cs) ab =
     (case setUint8 off (of_char c) ab of
        Inl e \<Rightarrow> Inl e
      | Inr ab' \<Rightarrow> writeString (off + 1) cs ab')"

text \<open>
  The header, lines 76 to 89, is a sequence of statements \<^verbatim>\<open>write(offset, ...); offset += k\<close>
  on the pair of the buffer and \<open>offset\<close>; \<open>andThen\<close> runs the next statement unless the
  previous one has thrown.
\<close>

type_synonym wavState = "byte list \<times> nat"

definition andThen :: "exn + 'a \<Rightarrow> ('a \<Rightarrow> exn + 'b) \<Rightarrow> exn + 'b" where
  "andThen r f = (case r of Inl e \<Rightarrow> Inl e | Inr x \<Rightarrow> f x)"

definition putString :: "string \<Rightarrow> nat \<Rightarrow> wavState \<Rightarrow> exn + wavState" where
  "putString str k st = andThen (writeString (snd st) str (fst st)) (\<lambda>ab. Inr (ab, snd st + k))"

definition putUint32 :: "nat \<Rightarrow> nat \<Rightarrow> wavState \<Rightarrow> exn + wavState" where
  "putUint32 v k st = andThen (setUint32 (snd st) v (fst st)) (\<lambda>ab. Inr (ab, snd st + k))"

definition putUint16 :: "nat \<Rightarrow> nat \<Rightarrow> wavState \<Rightarrow> exn + wavState" where
  "putUint16 v k st = andThen (setUint16 (snd st) v (fst st)) (\<lambda>ab. Inr (ab, snd st + k))"

fun runStatements :: "(wavState \<Rightarrow> exn + wavState) list \<Rightarrow> wavState \<Rightarrow> exn + wavState" where
  "runStatements [] st = Inr st"
| "runStatements (w # ws) st = andThen (w st) (runStatements ws)"

text \<open>The loop of lines 91 to 93: one \<^verbatim>\<open>setInt16\<close> per sample, \<open>offset\<close> advancing by 2.\<close>

fun writeSamples :: "int16 list \<Rightarrow> wavState \<Rightarrow> exn + wavState" where
  "writeSamples [] st = Inr st"
| "writeSamples (w # ws) st =
     andThen (setInt16 (snd st) w (fst st)) (\<lambda>ab. writeSamples ws (ab, snd st + 2))"

text \<open>A \<^verbatim>\<open>Blob\<close>: the byte sequences it was built from, in order, and its type.\<close>

datatype blob = Blob "byte list list" string

definition monoFloatToWavBlob :: "jsnum list \<Rightarrow> nat \<Rightarrow> exn + blob" where
  "monoFloatToWavBlob samples sampleRate =
     (let pcm16 = toPcm16 samples;
          byteRate = sampleRate * 2;
          blockAlign = 2;
          bufferLength = 44 + length pcm16 * 2;
          ab = replicate bufferLength (0 :: byte)
      in andThen
           (runStatements
              [putString ''RIFF'' 4,
               putUint32 (36 + length pcm16 * 2) 4,
               putString ''WAVE'' 4,
               putString ''fmt '' 4,
               putUint32 16 4,
               putUint16 1 2,
               putUint16 1 2,
               putUint32 sampleRate 4,
               putUint32 byteRate 4,
               putUint16 blockAlign 2,
               putUint16 16 2,
               putString ''data'' 4,
               putUint32 (length pcm16 * 2) 4]
              (ab, 0))
           (\<lambda>st. andThen (writeSamples pcm16 st)
              (\<lambda>st'. Inr (Blob [fst st'] ''audio/wav''))))"

text \<open>
  The layout of the file in the words of the specification: the bytes of an ASCII tag, and
  the header fields followed by the quantized samples. \<open>leValue\<close> reads a little-endian
  field back as a number.
\<close>

definition asciiBytes :: "string \<Rightarrow> byte list" where
  "asciiBytes str = map (\<lambda>c. word_of_nat (of_char c)) str"

definition wavLayout :: "jsnum list \<Rightarrow> nat \<Rightarrow> byte list" where
  "wavLayout samples sampleRate =
     asciiBytes ''RIFF'' @ le32 (36 + 2 * length samples) @ asciiBytes ''WAVE'' @
     asciiBytes ''fmt '' @ le32 16 @ le16 1 @ le16 1 @ le32 sampleRate @ le32 (sampleRate * 2) @
     le16 2 @ le16 16 @
     asciiBytes ''data'' @ le32 (2 * length samples) @
     concat (map (\<lambda>x. int16Bytes (quantizeSample x)) samples)"

fun leValue :: "byte list \<Rightarrow> nat" where
  "leValue [] = 0"
| "leValue (b # bs) = unat b + 256 * leValue bs"

text \<open>
  The writer's progress after it has written the bytes \<open>written\<close> into a buffer that had
  \<open>m\<close> more bytes, still zero: the buffer, and \<open>offset\<close> at the end of what is written.
\<close>

definition wavProgress :: "byte list \<Rightarrow> nat \<Rightarrow> wavState" where
  "wavProgress written m = (written @ replicate m 0, length written)"

section \<open>Downmix to mono\<close>

text \<open>
  The hosting environment: the rounding of the platform's arithmetic and the two encoder
  libraries, which are not part of \<^verbatim>\<open>main.js\<close>.
  \<^item> \<open>round64\<close> gives the double that an arithmetic operation returns for the exact real
    result (an infinity on overflow); \<open>round32\<close> gives the 32-bit float that a store into
    a \<^verbatim>\<open>Float32Array\<close> keeps.
  \<^item> \<open>OggVorbisEncoder\<close> is \<open>None\<close> when the global of that name is undefined; otherwise
    it maps the sample rate, the channel count, the quality and the channels given to
    \<^verbatim>\<open>encode\<close> to the bytes that \<^verbatim>\<open>finish\<close> returns, or throws.
  \<^item> \<open>lamejs\<close> is \<open>None\<close> when that global is undefined; otherwise it maps the channel
    count, the sample rate, the bit rate and the 16-bit samples to the chunk that
    \<^verbatim>\<open>encodeBuffer\<close> returns and the chunk that \<^verbatim>\<open>flush\<close> returns, or throws.
\<close>

record env =
  round64 :: "real \<Rightarrow> jsnum"
  round32 :: "real \<Rightarrow> jsnum"
  OggVorbisEncoder :: "(nat \<Rightarrow> nat \<Rightarrow> int \<Rightarrow> jsnum list list \<Rightarrow> exn + byte list) option"
  lamejs :: "(nat \<Rightarrow> nat \<Rightarrow> nat \<Rightarrow> int16 list \<Rightarrow> exn + byte list \<times> byte list) option"

text \<open>The sum of two doubles, and the quotient of a double by a channel count.\<close>

fun js_add :: "env \<Rightarrow> jsnum \<Rightarrow> jsnum \<Rightarrow> jsnum" where
  "js_add env NaN _ = NaN"
| "js_add env _ NaN = NaN"
| "js_add env (Fin a) (Fin b) = round64 env (a + b)"
| "js_add env PosInf NegInf = NaN"
| "js_add env NegInf PosInf = NaN"
| "js_add env PosInf _ = PosInf"
| "js_add env NegInf _ = NegInf"
| "js_add env _ b = b"

fun js_div_count :: "env \<Rightarrow> jsnum \<Rightarrow> nat \<Rightarrow> jsnum" where
  "js_div_count env (Fin a) n =
     (if n = 0 then (if 0 < a then PosInf else if a < 0 then NegInf else NaN)
      else round64 env (a / real n))"
| "js_div_count env x n = x"

text \<open>The store of a double into a \<^verbatim>\<open>Float32Array\<close>.\<close>

fun toFloat32 :: "env \<Rightarrow> jsnum \<Rightarrow> jsnum" where
  "toFloat32 env (Fin a) = round32 env a"
| "toFloat32 env x = x"

text \<open>
  An \<^verbatim>\<open>AudioBuffer\<close>: its sample rate (a positive integer in the data model of the
  specification), its \<^verbatim>\<open>length\<close> in frames and the data of its channels. \<^verbatim>\<open>getChannelData\<close> throws an \<^verbatim>\<open>IndexSizeError\<close> for a channel the buffer
  has not.
\<close>

record audio_buffer =
  sampleRate :: nat
  bufferLength :: nat
  channelData :: "jsnum list list"

definition numberOfChannels :: "audio_buffer \<Rightarrow> nat" where
  "numberOfChannels buffer = length (channelData buffer)"

definition getChannelData :: "audio_buffer \<Rightarrow> nat \<Rightarrow> exn + jsnum list" where
  "getChannelData buffer ch =
     (if ch < numberOfChannels buffer then Inr (channelData buffer ! ch) else Inl IndexSizeError)"

text \<open>
  \<^verbatim>\<open>subarray(begin, end)\<close> of a typed array: a negative index counts from the end, and
  both are clamped to the array. \<^verbatim>\<open>target.set(source)\<close> copies the source to the front
  of the target and throws a \<^verbatim>\<open>RangeError\<close> when the source is the longer one.
\<close>

definition subarray :: "'a list \<Rightarrow> int \<Rightarrow> int \<Rightarrow> 'a list" where
  "subarray xs begin end =
     (let len = int (length xs);
          b = (if begin < 0 then max (len + begin) 0 else min begin len);
          e = (if end < 0 then max (len + end) 0 else min end len)
      in take (nat (max (e - b) 0)) (drop (nat b) xs))"

definition typedArraySet :: "'a list \<Rightarrow> 'a list \<Rightarrow> exn + 'a list" where
  "typedArraySet target source =
     (if length source > length target then Inl RangeError
      else Inr (source @ drop (length source) target))"

text \<open>
  The inner loop of lines 47 to 49 for one channel:
  \<^verbatim>\<open>mono[i] += data[i] / numChannels\<close> for every index of the array \<^verbatim>\<open>mono\<close>, which is
  \<open>monoBuf\<close> here. The quotient and the sum are doubles, the store rounds to a 32-bit
  float. The outer loop of lines 45 to 50 takes the channels in order.
\<close>

definition addChannel :: "env \<Rightarrow> nat \<Rightarrow> jsnum list \<Rightarrow> jsnum list \<Rightarrow> jsnum list" where
  "addChannel env numChannels data monoBuf =
     map (\<lambda>i. toFloat32 env
                 (js_add env (monoBuf ! i) (js_div_count env (sampleAt data (int i)) numChannels)))
       [0..<length monoBuf]"

fun mixChannels :: "env \<Rightarrow> nat \<Rightarrow> int \<Rightarrow> int \<Rightarrow> jsnum list list \<Rightarrow> jsnum list \<Rightarrow> jsnum list" where
  "mixChannels env numChannels startSample endSample [] monoBuf = monoBuf"
| "mixChannels env numChannels startSample endSample (d # ds) monoBuf =
     mixChannels env numChannels startSample endSample ds
       (addChannel env numChannels (subarray d startSample endSample) monoBuf)"

text \<open>
  \<^verbatim>\<open>extractMonoSamples(buffer, startSample, endSample)\<close> for integer indices.
  \<^verbatim>\<open>new Float32Array(length)\<close> throws a \<^verbatim>\<open>RangeError\<close> for a negative length and is
  filled with zeros otherwise.
\<close>

definition extractMonoSamples :: "env \<Rightarrow> audio_buffer \<Rightarrow> int \<Rightarrow> int \<Rightarrow> exn + jsnum list" where
  "extractMonoSamples env buffer startSample endSample =
     (let numChannels = numberOfChannels buffer;
          len = endSample - startSample
      in if len < 0 then Inl RangeError
         else
           (let monoBuf = replicate (nat len) (Fin 0)
            in if numChannels = 1 then
                 andThen (getChannelData buffer 0)
                   (\<lambda>d. typedArraySet monoBuf (subarray d startSample endSample))
               else
                 Inr (mixChannels env numChannels startSample endSample
                        (channelData buffer) monoBuf)))"

section \<open>The compressed encoders\<close>

text \<open>Lines 99 to 107 and 110 to 131: the library is probed, then called.\<close>

definition monoFloatToOggBlob :: "env \<Rightarrow> jsnum list \<Rightarrow> nat \<Rightarrow> int \<Rightarrow> exn + blob" where
  "monoFloatToOggBlob env samples rate quality =
     (case OggVorbisEncoder env of
        None \<Rightarrow> Inl OggVorbisEncoderMissing
      | Some encoder \<Rightarrow>
          andThen (encoder rate 1 quality [samples])
            (\<lambda>oggData. Inr (Blob [oggData] ''audio/ogg'')))"

definition monoFloatToMp3Blob :: "env \<Rightarrow> jsnum list \<Rightarrow> nat \<Rightarrow> exn + blob" where
  "monoFloatToMp3Blob env samples rate =
     (case lamejs env of
        None \<Rightarrow> Inl LamejsMissing
      | Some mp3encoder \<Rightarrow>
          andThen (mp3encoder 1 rate 128 (toPcm16 samples))
            (\<lambda>(chunk, end).
               Inr (Blob ((if length chunk > 0 then [chunk] else []) @
                          (if length end > 0 then [end] else [])) ''audio/mpeg'')))"

section \<open>One file\<close>

text \<open>
  An index into the samples is an integer or NaN (\<open>None\<close>). The two functions above are
  extended to such arguments as JavaScript runs them:
  \<^item> with a NaN target or a NaN radius the bounds of the scan are NaN, the loop of line 19
    has no turn, and \<^verbatim>\<open>findNearestZeroCross\<close> returns the target as it is;
  \<^item> with a NaN index the length of line 38 is NaN, \<^verbatim>\<open>new Float32Array(NaN)\<close> is empty,
    the loops of line 47 have no turn, and \<^verbatim>\<open>subarray\<close> reads NaN as 0.
\<close>

definition findNearestZeroCrossNum :: "jsnum list \<Rightarrow> int option \<Rightarrow> int option \<Rightarrow> int option" where
  "findNearestZeroCrossNum samples targetIndex searchRadius =
     (case (targetIndex, searchRadius) of
        (Some t, Some r) \<Rightarrow> Some (findNearestZeroCross samples t r)
      | _ \<Rightarrow> targetIndex)"

definition nanAsZero :: "int option \<Rightarrow> int" where
  "nanAsZero i = (case i of None \<Rightarrow> 0 | Some k \<Rightarrow> k)"

definition extractMonoSamplesNum ::
    "env \<Rightarrow> audio_buffer \<Rightarrow> int option \<Rightarrow> int option \<Rightarrow> exn + jsnum list" where
  "extractMonoSamplesNum env buffer startSample endSample =
     (case (startSample, endSample) of
        (Some s, Some e) \<Rightarrow> extractMonoSamples env buffer s e
      | _ \<Rightarrow>
          if numberOfChannels buffer = 1 then
            andThen (getChannelData buffer 0)
              (\<lambda>d. typedArraySet [] (subarray d (nanAsZero startSample) (nanAsZero endSample)))
          else Inr [])"

text \<open>
  \<^verbatim>\<open>Math.floor\<close>, the rounded product of two doubles, and the raw index of lines 144 to
  151, \<^verbatim>\<open>Math.max(0, Math.min(buffer.length - 1, Math.floor(sec * sr)))\<close>. The raw index
  is NaN or a finite integer, never an infinity.
\<close>

fun js_floor :: "jsnum \<Rightarrow> jsnum" where
  "js_floor (Fin x) = Fin (of_int \<lfloor>x\<rfloor>)"
| "js_floor x = x"

definition js_mul64 :: "env \<Rightarrow> jsnum \<Rightarrow> jsnum \<Rightarrow> jsnum" where
  "js_mul64 env a b = (case js_mul a b of Fin x \<Rightarrow> round64 env x | y \<Rightarrow> y)"

fun asIndex :: "jsnum \<Rightarrow> int option" where
  "asIndex (Fin x) = Some \<lfloor>x\<rfloor>"
| "asIndex _ = None"

definition rawIndex :: "env \<Rightarrow> audio_buffer \<Rightarrow> jsnum \<Rightarrow> int option" where
  "rawIndex env buffer sec =
     asIndex (js_max (Fin 0)
       (js_min (Fin (of_int (int (bufferLength buffer) - 1)))
          (js_floor (js_mul64 env sec (Fin (real (sampleRate buffer)))))))"

text \<open>
  A line of the log. The texts are fixed; a line is given by its kind and by the values
  that main.js puts into it:
  \<^item> \<open>LogStart name\<close>, line 137; \<open>LogRequested startSec endSec\<close>, line 165;
    \<open>LogAdjusted startIdx endIdx sr\<close>, line 166 (the two quotients by \<open>sr\<close>);
    \<open>LogSamples startIdx endIdx\<close>, line 167 (with the difference of the two);
    \<open>LogOggQuality q\<close>, line 173; \<open>LogMp3Encoding\<close>, line 178;
  \<^item> \<open>LogRangeError name\<close>, line 158: the name of the file and a fixed sentence;
    \<open>LogUnsupported outFormat\<close>, line 181; \<open>LogException name e\<close>, line 235: the name of
    the file and the message of what was thrown; \<open>LogDone download\<close>, line 193;
  \<^item> \<open>LogNoFiles\<close>, line 215; \<open>LogBadRange\<close>, line 219; \<open>LogFileCount n\<close>, line 225;
    \<open>LogSettings startSec endSec searchRadius outFormat\<close>, line 226; \<open>LogAllDone\<close>,
    line 239.
\<close>

datatype log_line =
    LogStart string
  | LogRequested jsnum jsnum
  | LogAdjusted "int option" "int option" nat
  | LogSamples "int option" "int option"
  | LogOggQuality int
  | LogMp3Encoding
  | LogRangeError string
  | LogUnsupported string
  | LogException string exn
  | LogDone string
  | LogNoFiles
  | LogBadRange
  | LogFileCount nat
  | LogSettings jsnum jsnum "int option" string
  | LogAllDone

text \<open>
  An input file: its name, and what \<^verbatim>\<open>file.arrayBuffer()\<close> followed by
  \<^verbatim>\<open>decodeAudioData\<close> gives for it, a decoded buffer or a rejection.
\<close>

record input_file =
  name :: string
  decoded :: "exn + audio_buffer"

record params =
  startSec :: jsnum
  endSec :: jsnum
  searchRadius :: "int option"
  outFormat :: string
  oggQuality :: int

text \<open>
  The name of the download, line 189: the regular expression \<^verbatim>\<open>/\.[^/.]+$/\<close> matches the
  last dot of the name when at least one character follows it and no slash does.
\<close>

definition stripExtension :: "string \<Rightarrow> string" where
  "stripExtension fileName =
     (let r = rev fileName;
          ext = takeWhile (\<lambda>c. c \<noteq> CHR ''.'' \<and> c \<noteq> CHR ''/'') r;
          rest = dropWhile (\<lambda>c. c \<noteq> CHR ''.'' \<and> c \<noteq> CHR ''/'') r
      in case rest of
           c # base \<Rightarrow> if c = CHR ''.'' \<and> ext \<noteq> [] then rev base else fileName
         | [] \<Rightarrow> fileName)"

definition downloadName :: "string \<Rightarrow> string \<Rightarrow> string" where
  "downloadName fileName fmt =
     stripExtension fileName @ ''_loop'' @
       (if fmt = ''wav'' then ''.wav'' else if fmt = ''mp3'' then ''.mp3'' else ''.ogg'')"

text \<open>
  The comparison \<^verbatim>\<open>endIdx <= startIdx\<close> of line 157, false when either is NaN, and the
  two adjusted indices of lines 154 and 155.
\<close>

definition indexLe :: "int option \<Rightarrow> int option \<Rightarrow> bool" where
  "indexLe a b = (case (a, b) of (Some x, Some y) \<Rightarrow> x \<le> y | _ \<Rightarrow> False)"

definition adjustedStart :: "env \<Rightarrow> audio_buffer \<Rightarrow> jsnum list \<Rightarrow> params \<Rightarrow> int option" where
  "adjustedStart env buffer samplesCh0 p =
     findNearestZeroCrossNum samplesCh0 (rawIndex env buffer (startSec p)) (searchRadius p)"

definition adjustedEnd :: "env \<Rightarrow> audio_buffer \<Rightarrow> jsnum list \<Rightarrow> params \<Rightarrow> int option" where
  "adjustedEnd env buffer samplesCh0 p =
     findNearestZeroCrossNum samplesCh0 (rawIndex env buffer (endSec p)) (searchRadius p)"

text \<open>
  \<^verbatim>\<open>processSingleFile(file, params)\<close>: the lines it logs, in order, and how it ends: it
  throws (\<open>Inl\<close>), or it returns (\<open>Inr\<close>) after it has started a download (a name and a
  blob) or without one.
\<close>

type_synonym download = "string \<times> blob"

definition encodeAndDownload ::
    "env \<Rightarrow> input_file \<Rightarrow> params \<Rightarrow> nat \<Rightarrow> jsnum list \<Rightarrow> log_line list
     \<Rightarrow> log_line list \<times> (exn + download option)" where
  "encodeAndDownload env file p sr monoBuf lg =
     (let finish = (\<lambda>lg' r.
            case r of
              Inl e \<Rightarrow> (lg', Inl e)
            | Inr b \<Rightarrow>
                (lg' @ [LogDone (downloadName (name file) (outFormat p))],
                 Inr (Some (downloadName (name file) (outFormat p), b))))
      in if outFormat p = ''ogg'' then
           finish (lg @ [LogOggQuality (oggQuality p)])
             (monoFloatToOggBlob env monoBuf sr (oggQuality p))
         else if outFormat p = ''wav'' then
           finish lg (monoFloatToWavBlob monoBuf sr)
         else if outFormat p = ''mp3'' then
           finish (lg @ [LogMp3Encoding]) (monoFloatToMp3Blob env monoBuf sr)
         else (lg @ [LogUnsupported (outFormat p)], Inr None))"

definition processSingleFile ::
    "env \<Rightarrow> input_file \<Rightarrow> params \<Rightarrow> log_line list \<times> (exn + download option)" where
  "processSingleFile env file p =
     (let lg0 = [LogStart (name file)] in
      case decoded file of
        Inl e \<Rightarrow> (lg0, Inl e)
      | Inr buffer \<Rightarrow>
          (case getChannelData buffer 0 of
             Inl e \<Rightarrow> (lg0, Inl e)
           | Inr samplesCh0 \<Rightarrow>
               (let sr = sampleRate buffer;
                    startIdx = adjustedStart env buffer samplesCh0 p;
                    endIdx = adjustedEnd env buffer samplesCh0 p
                in if indexLe endIdx startIdx then
                     (lg0 @ [LogRangeError (name file)], Inr None)
                   else
                     (let lg1 = lg0 @ [LogRequested (startSec p) (endSec p),
                                       LogAdjusted startIdx endIdx sr,
                                       LogSamples startIdx endIdx]
                      in case extractMonoSamplesNum env buffer startIdx endIdx of
                           Inl e \<Rightarrow> (lg1, Inl e)
                         | Inr monoBuf \<Rightarrow> encodeAndDownload env file p sr monoBuf lg1))))"

section \<open>The batch\<close>

text \<open>
  The page: the text of the log and the downloads started so far. The loop of lines 230 to
  237 runs the files in order; what a file throws is caught and logged with its name.
\<close>

record page =
  logText :: "log_line list"
  downloads :: "download list"

definition runFile :: "env \<Rightarrow> params \<Rightarrow> input_file \<Rightarrow> page \<Rightarrow> page" where
  "runFile env p file pg =
     (case processSingleFile env file p of
        (lg, Inl e) \<Rightarrow> pg\<lparr>logText := logText pg @ lg @ [LogException (name file) e]\<rparr>
      | (lg, Inr None) \<Rightarrow> pg\<lparr>logText := logText pg @ lg\<rparr>
      | (lg, Inr (Some d)) \<Rightarrow>
          pg\<lparr>logText := logText pg @ lg, downloads := downloads pg @ [d]\<rparr>)"

fun runFiles :: "env \<Rightarrow> params \<Rightarrow> input_file list \<Rightarrow> page \<Rightarrow> page" where
  "runFiles env p [] pg = pg"
| "runFiles env p (file # files) pg = runFiles env p files (runFile env p file pg)"

text \<open>
  The click handler of lines 197 to 240, from the parsed fields on: \<open>startSec\<close> and
  \<open>endSec\<close> are what \<^verbatim>\<open>parseFloat\<close> returned, \<open>searchRadius\<close> and \<open>oggQuality\<close> what
  \<^verbatim>\<open>parseInt\<close> returned, an integer or NaN (\<open>None\<close>). The log is emptied first (line 198),
  so the handler's result does not depend on the page before the click.
\<close>

definition clampQuality :: "int option \<Rightarrow> int" where
  "clampQuality q = (let q' = (case q of None \<Rightarrow> 3 | Some k \<Rightarrow> k) in min 10 (max 0 q'))"

definition runBtnClick ::
    "env \<Rightarrow> input_file list \<Rightarrow> jsnum \<Rightarrow> jsnum \<Rightarrow> int option \<Rightarrow> string \<Rightarrow> int option \<Rightarrow> page" where
  "runBtnClick env files startSec' endSec' searchRadius' outFormat' oggQuality' =
     (if length files = 0 then \<lparr>logText = [LogNoFiles], downloads = []\<rparr>
      else if \<not> js_gt endSec' startSec' then \<lparr>logText = [LogBadRange], downloads = []\<rparr>
      else
        (let q = clampQuality oggQuality';
             pg = \<lparr>logText = [LogFileCount (length files),
                               LogSettings startSec' endSec' searchRadius' outFormat'],
                    downloads = []\<rparr>;
             p = \<lparr>startSec = startSec', endSec = endSec', searchRadius = searchRadius',
                  outFormat = outFormat', oggQuality = q\<rparr>;
             pg' = runFiles env p files pg
         in pg'\<lparr>logText := logText pg' @ [LogAllDone]\<rparr>))"

section \<open>IEEE 754 rounding\<close>

text \<open>
  The arithmetic of JavaScript rounds every result to the nearest double, ties to the
  even significand, and a store into a \<^verbatim>\<open>Float32Array\<close> rounds to the nearest 32-bit
  float in the same way. \<open>roundBinary p emin emax\<close> is that rounding for a binary format
  with \<open>p\<close> significant bits and exponents from \<open>emin\<close> to \<open>emax\<close>:
  \<^item> \<open>bitLength n\<close> is the number of binary digits of a positive integer, and \<open>ilog2 x\<close>
    the integer part of the binary logarithm of a positive real;
  \<^item> the exponent of \<open>x\<close> is \<open>ilog2 \<bar>x\<bar>\<close>, or \<open>emin\<close> for a subnormal; the last place of
    the significand then has the weight \<open>2\<close> to the power \<open>s = e - (p - 1)\<close>;
  \<^item> \<open>x\<close> is divided by that weight, rounded to the nearest integer (a tie to the even
    one) and multiplied back; a result of magnitude \<open>2 ^ (emax + 1)\<close> or more is an
    infinity.
  \<open>ieeeHost\<close> is a host with this arithmetic and without the two encoder libraries.
\<close>

function bitLength :: "int \<Rightarrow> int" where
  "bitLength n = (if n \<le> 0 then 0 else 1 + bitLength (n div 2))"
  by pat_completeness auto
termination
  by (relation "measure nat") auto

declare bitLength.simps [simp del]

definition ilog2 :: "real \<Rightarrow> int" where
  "ilog2 x =
     (if 1 \<le> x then bitLength \<lfloor>x\<rfloor> - 1 else - bitLength (\<lceil>1 / x\<rceil> - 1))"

definition roundHalfEven :: "real \<Rightarrow> int" where
  "roundHalfEven x =
     (let f = \<lfloor>x\<rfloor>; d = x - of_int f
      in if d < 1 / 2 then f else if 1 / 2 < d then f + 1 else if even f then f else f + 1)"

definition scaleBy :: "real \<Rightarrow> int \<Rightarrow> real" where
  "scaleBy x s = (if 0 \<le> s then x * 2 ^ nat s else x / 2 ^ nat (- s))"

definition roundBinary :: "nat \<Rightarrow> int \<Rightarrow> int \<Rightarrow> real \<Rightarrow> jsnum" where
  "roundBinary p emin emax x =
     (if x = 0 then Fin 0
      else
        (let e = max (ilog2 \<bar>x\<bar>) emin;
             s = e - (int p - 1);
             y = scaleBy (of_int (roundHalfEven (scaleBy x (- s)))) s
         in if scaleBy 1 (emax + 1) \<le> \<bar>y\<bar> then (if 0 < x then PosInf else NegInf)
            else Fin y))"

definition ieeeHost :: env where
  "ieeeHost = \<lparr>round64 = roundBinary 53 (- 1022) 1023, round32 = roundBinary 24 (- 126) 127,
               OggVorbisEncoder = None, lamejs = None\<rparr>"

text \<open>A host rounds nothing at \<open>x\<close> when \<open>x\<close> is a double and a 32-bit float for it.\<close>

definition roundsNothing :: "env \<Rightarrow> real \<Rightarrow> bool" where
  "roundsNothing env x = (round64 env x = Fin x \<and> round32 env x = Fin x)"

text \<open>
  The downmix of one position. For every channel the loop of \<open>extractMonoSamples\<close>
  executes \<^verbatim>\<open>mono[i] += ch[i] / numChannels\<close>: \<open>mixStep\<close> is that statement on the stored
  value \<open>x\<close> and the channel's sample \<open>v\<close> (a division and an addition in doubles, a store
  that rounds to a 32-bit float), and \<open>mixValue\<close> is the value stored after \<open>numChannels\<close>
  channels that all hold \<open>v\<close>, from the initial 0. \<open>mixTolerance v\<close> bounds the rounding
  error of one such step: half a unit in the last place of a 32-bit float and of two
  doubles, for values up to about \<open>2 * \<bar>v\<bar>\<close>.
\<close>

definition mixStep :: "env \<Rightarrow> nat \<Rightarrow> jsnum \<Rightarrow> jsnum \<Rightarrow> jsnum" where
  "mixStep env numChannels v x = toFloat32 env (js_add env x (js_div_count env v numChannels))"

definition mixValue :: "env \<Rightarrow> nat \<Rightarrow> jsnum \<Rightarrow> jsnum" where
  "mixValue env numChannels v = (mixStep env numChannels v ^^ numChannels) (Fin 0)"

definition mixTolerance :: "real \<Rightarrow> real" where
  "mixTolerance v = \<bar>v\<bar> / 2 ^ 23 + 1 / 2 ^ 149"

section \<open>What a run shows for each file\<close>

text \<open>
  The part of a run that belongs to one file: the lines that \<open>runFile\<close> appends to the log
  for it and the downloads it starts. A file's result is the last of its lines: the
  completed download, or one of the three failures (the rejected range, the unsupported
  format, the exception caught by the handler).
\<close>

definition fileLog :: "env \<Rightarrow> params \<Rightarrow> input_file \<Rightarrow> log_line list" where
  "fileLog env p file =
     (case processSingleFile env file p of
        (lg, Inl e) \<Rightarrow> lg @ [LogException (name file) e]
      | (lg, Inr r) \<Rightarrow> lg)"

definition fileDownloads :: "env \<Rightarrow> params \<Rightarrow> input_file \<Rightarrow> download list" where
  "fileDownloads env p file =
     (case processSingleFile env file p of
        (lg, Inr (Some d)) \<Rightarrow> [d]
      | (lg, r) \<Rightarrow> [])"

fun isStartLine :: "log_line \<Rightarrow> bool" where
  "isStartLine (LogStart n) = True"
| "isStartLine l = False"

fun isSuccessLine :: "log_line \<Rightarrow> bool" where
  "isSuccessLine (LogDone n) = True"
| "isSuccessLine l = False"

fun isFailureLine :: "log_line \<Rightarrow> bool" where
  "isFailureLine (LogRangeError n) = True"
| "isFailureLine (LogUnsupported f) = True"
| "isFailureLine (LogException n e) = True"
| "isFailureLine l = False"

definition isResultLine :: "log_line \<Rightarrow> bool" where
  "isResultLine l = (isSuccessLine l \<or> isFailureLine l)"

text \<open>The parameters that the click handler passes to every file.\<close>

definition batchParams :: "jsnum \<Rightarrow> jsnum \<Rightarrow> int option \<Rightarrow> string \<Rightarrow> int option \<Rightarrow> params" where
  "batchParams startSec' endSec' searchRadius' outFormat' oggQuality' =
     \<lparr>startSec = startSec', endSec = endSec', searchRadius = searchRadius',
      outFormat = outFormat', oggQuality = clampQuality oggQuality'\<rparr>"

section \<open>Example inputs\<close>

text \<open>
  Small decoded buffers at 8000 Hz, with one channel of positive samples (no zero
  crossing), and two settings of the page: the range from 1 s to 2 s, which lies behind the
  end of each of the buffers, and the range from 0 s to 1 s with the output format wav.
\<close>

definition shortBuffer :: audio_buffer where
  "shortBuffer = \<lparr>sampleRate = 8000, bufferLength = 1, channelData = [[Fin (1 / 2)]]\<rparr>"

definition toneBuffer :: audio_buffer where
  "toneBuffer =
     \<lparr>sampleRate = 8000, bufferLength = 3,
      channelData = [[Fin (1 / 2), Fin (1 / 4), Fin (1 / 2)]]\<rparr>"

definition lateRange :: params where
  "lateRange = \<lparr>startSec = Fin 1, endSec = Fin 2, searchRadius = Some 4000,
                outFormat = ''wav'', oggQuality = 3\<rparr>"

definition rampBuffer :: audio_buffer where
  "rampBuffer =
     \<lparr>sampleRate = 8000, bufferLength = 4,
      channelData = [[Fin 1, Fin 1, Fin (1 / 2), Fin 1]]\<rparr>"

definition firstSecond :: params where
  "firstSecond = batchParams (Fin 0) (Fin 1) (Some 4000) ''wav'' None"

section \<open>Properties of the zero-cross search\<close>

lemma zcLoop_stop: "\<not> i \<le> e \<Longrightarrow> zcLoop samples t e i bi bd = bi"
  by (subst zcLoop.simps) simp

lemma zcLoop_skip:
  "i \<le> e \<Longrightarrow> \<not> crossingAt samples i \<Longrightarrow>
   zcLoop samples t e i bi bd = zcLoop samples t e (i + 1) bi bd"
  by (subst zcLoop.simps) (simp add: crossingAt_def)

lemma zcLoop_take:
  "i \<le> e \<Longrightarrow> crossingAt samples i \<Longrightarrow> distLess \<bar>i - t\<bar> bd \<Longrightarrow>
   zcLoop samples t e i bi bd = zcLoop samples t e (i + 1) i (Some \<bar>i - t\<bar>)"
  by (subst zcLoop.simps) (simp add: crossingAt_def)

lemma zcLoop_keep:
  "i \<le> e \<Longrightarrow> crossingAt samples i \<Longrightarrow> \<not> distLess \<bar>i - t\<bar> bd \<Longrightarrow>
   zcLoop samples t e i bi bd = zcLoop samples t e (i + 1) bi bd"
  by (subst zcLoop.simps) (simp add: crossingAt_def)

lemma distLess_trans: "d' < d \<Longrightarrow> distLess d bd \<Longrightarrow> distLess d' bd"
  by (cases bd) auto

lemma not_distLess_le: "\<not> distLess d bd \<Longrightarrow> distLess d' bd \<Longrightarrow> d' < d"
  by (cases bd) auto

lemma zcLoop_char:
  "(zcLoop samples t e i bi bd = bi \<and> noBetter samples t i e bd)
   \<or> (nearestIn samples t i e (zcLoop samples t e i bi bd) \<and>
       distLess \<bar>zcLoop samples t e i bi bd - t\<bar> bd)"
proof (induction "nat (e + 1 - i)" arbitrary: i bi bd)
  case 0
  then have "\<not> i \<le> e" by simp
  then have "noBetter samples t i e bd" unfolding noBetter_def by auto
  with \<open>\<not> i \<le> e\<close> show ?case by (simp add: zcLoop_stop)
next
  case (Suc m)
  then have le: "i \<le> e" and m: "m = nat (e + 1 - (i + 1))" by simp_all
  note IH = Suc.hyps(1) [OF m]
  have split: "\<And>k. i \<le> k \<longleftrightarrow> k = i \<or> i + 1 \<le> k" by auto
  show ?case
  proof (cases "crossingAt samples i")
    case False
    then have nb: "noBetter samples t i e bd = noBetter samples t (i + 1) e bd"
      and ne: "\<And>r. nearestIn samples t (i + 1) e r \<Longrightarrow> nearestIn samples t i e r"
      unfolding noBetter_def nearestIn_def by (auto simp: split)
    show ?thesis
      using IH [of bi bd] ne by (auto simp: zcLoop_skip [OF le False] nb)
  next
    case c: True
    show ?thesis
    proof (cases "distLess \<bar>i - t\<bar> bd")
      case dl: True
      let ?r = "zcLoop samples t e (i + 1) i (Some \<bar>i - t\<bar>)"
      have eq: "zcLoop samples t e i bi bd = ?r" by (rule zcLoop_take [OF le c dl])
      from IH [of i "Some \<bar>i - t\<bar>"] show ?thesis
      proof
        assume a: "?r = i \<and> noBetter samples t (i + 1) e (Some \<bar>i - t\<bar>)"
        then have "nearestIn samples t i e i"
          using le c unfolding noBetter_def nearestIn_def by (auto simp: split)
        with a dl show ?thesis by (simp add: eq)
      next
        assume a: "nearestIn samples t (i + 1) e ?r \<and> distLess \<bar>?r - t\<bar> (Some \<bar>i - t\<bar>)"
        then have lt: "\<bar>?r - t\<bar> < \<bar>i - t\<bar>" by simp
        from a lt have "nearestIn samples t i e ?r"
          unfolding nearestIn_def by (auto simp: split)
        with distLess_trans [OF lt dl] show ?thesis by (simp add: eq)
      qed
    next
      case ndl: False
      let ?r = "zcLoop samples t e (i + 1) bi bd"
      have eq: "zcLoop samples t e i bi bd = ?r" by (rule zcLoop_keep [OF le c ndl])
      from IH [of bi bd] show ?thesis
      proof
        assume a: "?r = bi \<and> noBetter samples t (i + 1) e bd"
        then have "noBetter samples t i e bd"
          using ndl unfolding noBetter_def by (auto simp: split)
        with a show ?thesis by (simp add: eq)
      next
        assume a: "nearestIn samples t (i + 1) e ?r \<and> distLess \<bar>?r - t\<bar> bd"
        then have lt: "\<bar>?r - t\<bar> < \<bar>i - t\<bar>" using not_distLess_le [OF ndl] by blast
        from a lt have "nearestIn samples t i e ?r"
          unfolding nearestIn_def by (auto simp: split)
        with a show ?thesis by (simp add: eq)
      qed
    qed
  qed
qed


lemma findNearestZeroCross_cases:
  "(findNearestZeroCross samples t r = t \<and> (\<forall>k. \<not> crossingInWindow samples t r k))
   \<or> nearestIn samples t (windowLo t r) (windowHi samples t r) (findNearestZeroCross samples t r)"
proof (cases "int (length samples) < 2")
  case True
  then have "\<forall>k. \<not> crossingInWindow samples t r k"
    by (auto simp: crossingInWindow_def windowLo_def windowHi_def)
  with True show ?thesis by (simp add: findNearestZeroCross_def)
next
  case False
  then have eq: "findNearestZeroCross samples t r =
      zcLoop samples t (windowHi samples t r) (windowLo t r) t None"
    by (simp add: findNearestZeroCross_def windowLo_def windowHi_def)
  from zcLoop_char [of samples t "windowHi samples t r" "windowLo t r" t None]
  show ?thesis
    unfolding eq noBetter_def crossingInWindow_def by auto
qed

text \<open>
  Claim C1. For every sample sequence, every integer target and every integer radius:
  when the window \<open>[max 0 (target - r), min (n - 2) (target + r)]\<close> holds a zero crossing,
  \<open>findNearestZeroCross\<close> returns an index of that window; when the window holds no
  crossing, or the sequence has fewer than two samples, it returns the target unchanged.
\<close>

theorem findNearestZeroCross_window:
  "((\<exists>i. crossingInWindow samples target r i) \<longrightarrow>
      windowLo target r \<le> findNearestZeroCross samples target r \<and>
      findNearestZeroCross samples target r \<le> windowHi samples target r) \<and>
   ((\<forall>i. \<not> crossingInWindow samples target r i) \<or> int (length samples) < 2 \<longrightarrow>
      findNearestZeroCross samples target r = target)"
proof (intro conjI impI)
  assume ex: "\<exists>i. crossingInWindow samples target r i"
  with findNearestZeroCross_cases [of samples target r]
  have "nearestIn samples target (windowLo target r) (windowHi samples target r)
          (findNearestZeroCross samples target r)"
    by blast
  then show "windowLo target r \<le> findNearestZeroCross samples target r"
    and "findNearestZeroCross samples target r \<le> windowHi samples target r"
    by (simp_all add: nearestIn_def)
next
  assume "(\<forall>i. \<not> crossingInWindow samples target r i) \<or> int (length samples) < 2"
  then show "findNearestZeroCross samples target r = target"
  proof
    assume none: "\<forall>i. \<not> crossingInWindow samples target r i"
    from findNearestZeroCross_cases [of samples target r] show ?thesis
    proof
      assume "nearestIn samples target (windowLo target r) (windowHi samples target r)
          (findNearestZeroCross samples target r)"
      then have "crossingInWindow samples target r (findNearestZeroCross samples target r)"
        by (simp add: nearestIn_def crossingInWindow_def)
      with none show ?thesis by blast
    qed simp
  next
    assume "int (length samples) < 2"
    then show ?thesis by (simp add: findNearestZeroCross_def)
  qed
qed

text \<open>
  The theorem at a five-sample signal whose only sign change is at index 1: with target 3
  and radius 2 the window \<open>[1, 3]\<close> holds it; with radius 0 the window \<open>[3, 3]\<close> holds no
  crossing; a one-sample signal gives the target back.
\<close>

theorem findNearestZeroCross_window_witness:
  "crossingInWindow [Fin 1, Fin 1, Fin (-1), Fin (-1), Fin (-1)] 3 2 1 \<and>
   windowLo 3 2 \<le> findNearestZeroCross [Fin 1, Fin 1, Fin (-1), Fin (-1), Fin (-1)] 3 2 \<and>
   findNearestZeroCross [Fin 1, Fin 1, Fin (-1), Fin (-1), Fin (-1)] 3 2
     \<le> windowHi [Fin 1, Fin 1, Fin (-1), Fin (-1), Fin (-1)] 3 2 \<and>
   findNearestZeroCross [Fin 1, Fin 1, Fin (-1), Fin (-1), Fin (-1)] 3 0 = 3 \<and>
   findNearestZeroCross [Fin 1] 7 2 = 7"
proof -
  have c: "crossingInWindow [Fin 1, Fin 1, Fin (-1), Fin (-1), Fin (-1)] 3 2 1"
    by (simp add: crossingInWindow_def windowLo_def windowHi_def crossingAt_def
        isZeroCross_def sampleAt_def js_gt_def)
  have n: "\<forall>i. \<not> crossingInWindow [Fin 1, Fin 1, Fin (-1), Fin (-1), Fin (-1)] 3 0 i"
    by (auto simp: crossingInWindow_def windowLo_def windowHi_def crossingAt_def
        isZeroCross_def sampleAt_def js_gt_def)
  show ?thesis
    using c n
      findNearestZeroCross_window [of "[Fin 1, Fin 1, Fin (-1), Fin (-1), Fin (-1)]" 3 2]
      findNearestZeroCross_window [of "[Fin 1, Fin 1, Fin (-1), Fin (-1), Fin (-1)]" 3 0]
      findNearestZeroCross_window [of "[Fin 1]" 7 2]
    by auto
qed

text \<open>
  Claim C2. When two crossings \<open>i < j\<close> of the scan window are at the same distance from
  the target and tie for the nearest (no crossing of the window is strictly nearer),
  \<open>findNearestZeroCross\<close> returns the lower one, \<open>i\<close>: the scan ascends and replaces the best
  index only on a strictly smaller distance.
\<close>

theorem findNearestZeroCross_tie:
  assumes "crossingInWindow samples target r i" and "crossingInWindow samples target r j"
    and "i < j" and "\<bar>i - target\<bar> = \<bar>j - target\<bar>"
    and "\<forall>k. crossingInWindow samples target r k \<longrightarrow> \<bar>i - target\<bar> \<le> \<bar>k - target\<bar>"
  shows "findNearestZeroCross samples target r = i"
proof -
  let ?res = "findNearestZeroCross samples target r"
  from findNearestZeroCross_cases [of samples target r] assms(1)
  have best: "nearestIn samples target (windowLo target r) (windowHi samples target r) ?res"
    by auto
  then have cw: "crossingInWindow samples target r ?res"
    by (simp add: nearestIn_def crossingInWindow_def)
  have le_i: "\<bar>?res - target\<bar> \<le> \<bar>i - target\<bar>"
    using best assms(1) by (simp add: nearestIn_def crossingInWindow_def)
  have ge_i: "\<bar>i - target\<bar> \<le> \<bar>?res - target\<bar>"
    using assms(5) cw by blast
  from best have "\<forall>k. windowLo target r \<le> k \<and> k \<le> windowHi samples target r \<and>
      crossingAt samples k \<longrightarrow> (\<bar>k - target\<bar> = \<bar>?res - target\<bar> \<longrightarrow> ?res \<le> k)"
    by (simp add: nearestIn_def)
  from this [rule_format, of i] assms(1) le_i ge_i have "?res \<le> i"
    by (simp add: crossingInWindow_def)
  with le_i ge_i assms(3,4) show ?thesis by linarith
qed

text \<open>
  The claim at the signal \<open>1, -1, -1, 1\<close> with target 1 and radius 1: the sign
  changes 0 and 2 are the only crossings of the window \<open>[0, 2]\<close>, both at distance 1.
\<close>

theorem findNearestZeroCross_tie_witness:
  "findNearestZeroCross [Fin 1, Fin (-1), Fin (-1), Fin 1] 1 1 = 0"
proof -
  let ?s = "[Fin 1, Fin (-1), Fin (-1), Fin 1]"
  have a: "crossingInWindow ?s 1 1 0" and b: "crossingInWindow ?s 1 1 2"
    by (simp_all add: crossingInWindow_def windowLo_def windowHi_def crossingAt_def
        isZeroCross_def sampleAt_def js_gt_def)
  have m: "\<forall>k. crossingInWindow ?s 1 1 k \<longrightarrow> \<bar>0 - 1\<bar> \<le> \<bar>k - 1\<bar>"
  proof (intro allI impI)
    fix k assume "crossingInWindow ?s 1 1 k"
    then have "(k = 0 \<or> k = 1 \<or> k = 2) \<and> crossingAt ?s k"
      by (auto simp: crossingInWindow_def windowLo_def windowHi_def)
    then have "k = 0 \<or> k = 2"
      by (auto simp: crossingAt_def isZeroCross_def sampleAt_def js_gt_def)
    then show "\<bar>0 - 1\<bar> \<le> \<bar>k - 1\<bar>" by auto
  qed
  show ?thesis
    using findNearestZeroCross_tie [of ?s 1 1 0 2, OF a b _ _ m] by simp
qed

section \<open>Properties of the quantizer\<close>

lemma clampSample_Fin: "clampSample (Fin x) = Fin (max (- 1) (min 1 x))"
  by (auto simp: clampSample_def max_def min_def)

lemma clampSample_simps:
  "clampSample NaN = NaN" "clampSample PosInf = Fin 1" "clampSample NegInf = Fin (- 1)"
  by (simp_all add: clampSample_def)

lemma scaleSample_Fin: "scaleSample (Fin x) = Fin (pcmScale (max (- 1) (min 1 x)))"
  by (simp only: scaleSample_def clampSample_Fin Let_def js_lt.simps js_mul.simps pcmScale_def
      if_distrib [of Fin])

lemma scaleSample_simps:
  "scaleSample NaN = NaN" "scaleSample PosInf = Fin 32767" "scaleSample NegInf = Fin (- 32768)"
  by (simp_all add: scaleSample_def clampSample_simps)

lemma pcmScale_bounds:
  assumes "- 1 \<le> c" and "c \<le> 1"
  shows "- 32768 \<le> pcmScale c" and "pcmScale c \<le> 32767"
  using assms by (auto simp: pcmScale_def)

lemma js_trunc_bounds:
  assumes "- 32768 \<le> r" and "r \<le> 32767"
  shows "- 32768 \<le> js_trunc r" and "js_trunc r \<le> 32767"
proof -
  have "- 32768 \<le> \<lceil>r\<rceil>" using assms(1) by (simp add: le_ceiling_iff)
  moreover have "r < 0 \<Longrightarrow> \<lceil>r\<rceil> \<le> 0" by (simp add: ceiling_le_iff)
  moreover have "\<lfloor>r\<rfloor> \<le> 32767" using assms(2) by (simp add: floor_le_iff)
  moreover have "\<not> r < 0 \<Longrightarrow> 0 \<le> \<lfloor>r\<rfloor>" by simp
  ultimately show "- 32768 \<le> js_trunc r" and "js_trunc r \<le> 32767"
    by (auto simp: js_trunc_def)
qed

lemma sint_int16_of_int:
  "- 32768 \<le> k \<Longrightarrow> k \<le> 32767 \<Longrightarrow> sint (word_of_int k :: int16) = k"
  by (simp add: sint_sbintrunc' signed_take_bit_int_eq_self)

lemma clamp_bounds: "- 1 \<le> max (- 1) (min 1 (x::real))" "max (- 1) (min 1 (x::real)) \<le> 1"
  by auto

lemma quantizeSample_Fin:
  "sint (quantizeSample (Fin x)) = js_trunc (pcmScale (max (- 1) (min 1 x)))"
  using js_trunc_bounds [OF pcmScale_bounds [OF clamp_bounds [of x]]]
  by (simp only: quantizeSample_def scaleSample_Fin toInt16.simps sint_int16_of_int)

text \<open>
  Claim C3. The quantization of a finite sample \<open>x\<close> clamps it to \<open>[-1, 1]\<close>, multiplies a
  negative value by 32768 and any other value by 32767, and truncates: the element of the
  \<^verbatim>\<open>Int16Array\<close> reads back as that integer. The sample 1.0 gives 32767, the sample
  -1.0 gives -32768 and the sample 0.0 gives 0. Both encoders that quantize
  (\<open>monoFloatToWavBlob\<close> and \<open>monoFloatToMp3Blob\<close>) do it by \<open>toPcm16\<close>, which maps
  \<open>quantizeSample\<close> over the samples.
\<close>

theorem quantizeSample_scheme:
  "clampSample (Fin x) = Fin (max (- 1) (min 1 x)) \<and>
   scaleSample (Fin x) = Fin (pcmScale (max (- 1) (min 1 x))) \<and>
   sint (quantizeSample (Fin x)) = js_trunc (pcmScale (max (- 1) (min 1 x))) \<and>
   sint (quantizeSample (Fin 1)) = 32767 \<and>
   sint (quantizeSample (Fin (- 1))) = - 32768 \<and>
   sint (quantizeSample (Fin 0)) = 0"
  by (simp add: clampSample_Fin scaleSample_Fin quantizeSample_Fin js_trunc_def pcmScale_def)

text \<open>The scheme at a half, at minus a half and at -1/65536, whose product -1/2 truncates to 0.\<close>

theorem quantizeSample_scheme_witness:
  "sint (quantizeSample (Fin (1 / 2))) = 16383 \<and>
   sint (quantizeSample (Fin (- 1 / 2))) = - 16384 \<and>
   sint (quantizeSample (Fin (- 1 / 65536))) = 0"
  using quantizeSample_scheme [of "1 / 2"] quantizeSample_scheme [of "- 1 / 2"]
    quantizeSample_scheme [of "- 1 / 65536"]
    ceiling_unique [of 0 "- (1 / 2) :: real"]
  by (simp add: js_trunc_def pcmScale_def)


text \<open>
  Claim C10. For every sample, NaN and the infinities included, the number that the
  quantizer stores is NaN or lies in \<open>[-32768, 32767]\<close>, so the store into the
  \<^verbatim>\<open>Int16Array\<close> never wraps; a sample above 1.0 gives 32767, a sample below -1.0 gives
  -32768, and NaN gives 0. The quantizer is a total function: no input makes it throw.
\<close>

theorem quantizeSample_in_range:
  "(scaleSample x = NaN \<or> (\<exists>r. scaleSample x = Fin r \<and> - 32768 \<le> r \<and> r \<le> 32767)) \<and>
   - 32768 \<le> sint (quantizeSample x) \<and> sint (quantizeSample x) \<le> 32767 \<and>
   (js_gt x (Fin 1) \<longrightarrow> sint (quantizeSample x) = 32767) \<and>
   (js_lt x (Fin (- 1)) \<longrightarrow> sint (quantizeSample x) = - 32768) \<and>
   (x = NaN \<longrightarrow> sint (quantizeSample x) = 0)"
proof (cases x)
  case (Fin a)
  let ?c = "max (- 1) (min 1 a)"
  note b = pcmScale_bounds [OF clamp_bounds [of a]]
  have hi: "1 < a \<Longrightarrow> js_trunc (pcmScale ?c) = 32767"
    by (simp add: pcmScale_def js_trunc_def)
  have lo: "a < - 1 \<Longrightarrow> js_trunc (pcmScale ?c) = - 32768"
    by (simp add: pcmScale_def js_trunc_def)
  show ?thesis
    unfolding Fin using b js_trunc_bounds [OF b] hi lo
    by (simp add: quantizeSample_Fin scaleSample_Fin js_gt_def)
qed (simp_all add: quantizeSample_def scaleSample_simps js_gt_def js_trunc_def sint_int16_of_int)

text \<open>Claim C10 at 3, at -2.5, at the two infinities and at NaN.\<close>

theorem quantizeSample_in_range_witness:
  "sint (quantizeSample (Fin 3)) = 32767 \<and> sint (quantizeSample (Fin (- 5 / 2))) = - 32768 \<and>
   sint (quantizeSample PosInf) = 32767 \<and> sint (quantizeSample NegInf) = - 32768 \<and>
   sint (quantizeSample NaN) = 0"
  using quantizeSample_in_range [of "Fin 3"] quantizeSample_in_range [of "Fin (- 5 / 2)"]
    quantizeSample_in_range [of PosInf] quantizeSample_in_range [of NegInf]
    quantizeSample_in_range [of NaN]
  by (simp add: js_gt_def)

section \<open>Properties of the WAV writer\<close>

lemma setBytes_at_end:
  "length bs \<le> m \<Longrightarrow>
   setBytes (length pre) bs (pre @ replicate m 0) = Inr ((pre @ bs) @ replicate (m - length bs) 0)"
  by (simp add: setBytes_def)

lemma writeString_at_end:
  "length str \<le> m \<Longrightarrow>
   writeString (length pre) str (pre @ replicate m 0) =
     Inr ((pre @ asciiBytes str) @ replicate (m - length str) 0)"
proof (induction str arbitrary: pre m)
  case Nil
  then show ?case by (simp add: asciiBytes_def)
next
  case (Cons c cs)
  then have m: "1 \<le> m" and cs: "length cs \<le> m - 1" by simp_all
  have "setUint8 (length pre) (of_char c) (pre @ replicate m 0) =
      Inr ((pre @ [word_of_nat (of_char c)]) @ replicate (m - 1) 0)"
    using setBytes_at_end [of "[word_of_nat (of_char c)]" m pre] m by (simp add: setUint8_def)
  moreover have "writeString (length (pre @ [word_of_nat (of_char c)])) cs
      ((pre @ [word_of_nat (of_char c)]) @ replicate (m - 1) 0) =
      Inr (((pre @ [word_of_nat (of_char c)]) @ asciiBytes cs) @ replicate (m - 1 - length cs) 0)"
    by (rule Cons.IH [OF cs])
  ultimately show ?case by (simp add: asciiBytes_def)
qed

lemma putString_wavProgress:
  "length str = k \<Longrightarrow> k \<le> m \<Longrightarrow>
   putString str k (wavProgress pre m) = Inr (wavProgress (pre @ asciiBytes str) (m - k))"
  using writeString_at_end [of str m pre]
  by (simp add: putString_def wavProgress_def andThen_def asciiBytes_def)

lemma putUint32_wavProgress:
  "4 \<le> m \<Longrightarrow> putUint32 v 4 (wavProgress pre m) = Inr (wavProgress (pre @ le32 v) (m - 4))"
  using setBytes_at_end [of "le32 v" m pre]
  by (simp add: putUint32_def setUint32_def wavProgress_def andThen_def le32_def)

lemma putUint16_wavProgress:
  "2 \<le> m \<Longrightarrow> putUint16 v 2 (wavProgress pre m) = Inr (wavProgress (pre @ le16 v) (m - 2))"
  using setBytes_at_end [of "le16 v" m pre]
  by (simp add: putUint16_def setUint16_def wavProgress_def andThen_def le16_def)

lemma writeSamples_wavProgress:
  "2 * length ws \<le> m \<Longrightarrow>
   writeSamples ws (wavProgress pre m) =
     Inr (wavProgress (pre @ concat (map int16Bytes ws)) (m - 2 * length ws))"
proof (induction ws arbitrary: pre m)
  case Nil
  then show ?case by simp
next
  case (Cons w ws)
  then have m: "2 \<le> m" and ws: "2 * length ws \<le> m - 2" by simp_all
  have "setInt16 (length pre) w (pre @ replicate m 0) =
      Inr ((pre @ int16Bytes w) @ replicate (m - 2) 0)"
    using setBytes_at_end [of "int16Bytes w" m pre] m by (simp add: setInt16_def int16Bytes_def)
  moreover have "length pre + 2 = length (pre @ int16Bytes w)"
    by (simp add: int16Bytes_def)
  ultimately have "writeSamples (w # ws) (wavProgress pre m) =
      writeSamples ws (wavProgress (pre @ int16Bytes w) (m - 2))"
    by (simp add: wavProgress_def andThen_def)
  also have "\<dots> = Inr (wavProgress ((pre @ int16Bytes w) @ concat (map int16Bytes ws))
      (m - 2 - 2 * length ws))"
    by (rule Cons.IH [OF ws])
  finally show ?case by simp
qed


lemma runStatements_Cons_Inr:
  "w st = Inr st' \<Longrightarrow> runStatements (w # ws) st = runStatements ws st'"
  by (simp add: andThen_def)

lemma wav_header:
  "runStatements
     [putString ''RIFF'' 4, putUint32 (36 + k * 2) 4, putString ''WAVE'' 4,
      putString ''fmt '' 4, putUint32 16 4, putUint16 1 2, putUint16 1 2,
      putUint32 rate 4, putUint32 (rate * 2) 4, putUint16 2 2, putUint16 16 2,
      putString ''data'' 4, putUint32 (k * 2) 4]
     (wavProgress [] (44 + k * 2)) =
   Inr (wavProgress
     (asciiBytes ''RIFF'' @ le32 (36 + k * 2) @ asciiBytes ''WAVE'' @ asciiBytes ''fmt '' @
      le32 16 @ le16 1 @ le16 1 @ le32 rate @ le32 (rate * 2) @ le16 2 @ le16 16 @
      asciiBytes ''data'' @ le32 (k * 2)) (k * 2))"
  by (simp add: andThen_def putString_wavProgress putUint32_wavProgress putUint16_wavProgress)


lemma monoFloatToWavBlob_eq:
  "monoFloatToWavBlob samples rate = Inr (Blob [wavLayout samples rate] ''audio/wav'')"
proof -
  let ?pcm = "toPcm16 samples"
  let ?k = "length ?pcm"
  let ?header = "asciiBytes ''RIFF'' @ le32 (36 + ?k * 2) @ asciiBytes ''WAVE'' @
      asciiBytes ''fmt '' @ le32 16 @ le16 1 @ le16 1 @ le32 rate @
      le32 (rate * 2) @ le16 2 @ le16 16 @ asciiBytes ''data'' @ le32 (?k * 2)"
  have start: "(replicate (44 + ?k * 2) (0 :: byte), 0 :: nat) = wavProgress [] (44 + ?k * 2)"
    by (simp add: wavProgress_def)
  have data: "writeSamples ?pcm (wavProgress ?header (?k * 2)) =
      Inr (wavProgress (?header @ concat (map int16Bytes ?pcm)) 0)"
    using writeSamples_wavProgress [of ?pcm "?k * 2" ?header] by simp
  have "monoFloatToWavBlob samples rate =
      Inr (Blob [fst (wavProgress (?header @ concat (map int16Bytes ?pcm)) 0)] ''audio/wav'')"
    unfolding monoFloatToWavBlob_def Let_def start wav_header
    by (simp only: andThen_def sum.case data)
  also have "fst (wavProgress (?header @ concat (map int16Bytes ?pcm)) 0) =
      wavLayout samples rate"
    by (simp add: wavProgress_def wavLayout_def toPcm16_def comp_def mult.commute)
  finally show ?thesis .
qed

lemma length_wavLayout: "length (wavLayout samples rate) = 44 + 2 * length samples"
proof -
  have "length (concat (map (\<lambda>x. int16Bytes (quantizeSample x)) samples)) = 2 * length samples"
    by (induction samples) (simp_all add: int16Bytes_def)
  then show ?thesis
    by (simp add: wavLayout_def asciiBytes_def le32_def le16_def)
qed


lemma unat_byte_of_nat: "unat (word_of_nat n :: byte) = n mod 256"
  by (simp add: unat_of_nat)

lemma leValue_le16: "leValue (le16 v) = v mod 65536"
  using mod_mult2_eq [of v 256 256] by (simp add: le16_def unat_byte_of_nat)

lemma leValue_le32: "leValue (le32 v) = v mod 4294967296"
proof -
  have 1: "v mod 65536 = 256 * (v div 256 mod 256) + v mod 256"
    using mod_mult2_eq [of v 256 256] by simp
  have 2: "v mod 16777216 = 65536 * (v div 65536 mod 256) + v mod 65536"
    using mod_mult2_eq [of v 65536 256] by simp
  have 3: "v mod 4294967296 = 16777216 * (v div 16777216 mod 256) + v mod 16777216"
    using mod_mult2_eq [of v 16777216 256] by simp
  show ?thesis by (simp add: le32_def unat_byte_of_nat 1 2 3)
qed

text \<open>
  Claim C4, amended. For every sample buffer of length \<open>k\<close> and every sample rate the
  writer returns without throwing, and the blob holds exactly the \<open>44 + 2 * k\<close> bytes of
  \<open>wavLayout\<close>: the tag RIFF, the total size, the tags WAVE and fmt, the sub-chunk size 16,
  the audio format 1, the channel count 1, the sample rate, the byte rate, the block
  alignment 2, the 16 bits per sample, the tag data, the data size and the quantized
  samples, every integer little-endian. A 32-bit field holds its value modulo \<open>2 ^ 32\<close>:
  the total size \<open>36 + 2 * k\<close>, the sample rate, the byte rate \<open>2 * rate\<close> and the
  data size \<open>2 * k\<close> are in the file as they are whenever they are below \<open>2 ^ 32\<close>. The
  output is a function of the two arguments alone.
\<close>

theorem monoFloatToWavBlob_layout:
  "monoFloatToWavBlob samples rate =
     Inr (Blob [wavLayout samples rate] ''audio/wav'') \<and>
   length (wavLayout samples rate) = 44 + 2 * length samples \<and>
   leValue (le32 (36 + 2 * length samples)) = (36 + 2 * length samples) mod 2 ^ 32 \<and>
   leValue (le32 rate) = rate mod 2 ^ 32 \<and>
   leValue (le32 (rate * 2)) = (rate * 2) mod 2 ^ 32 \<and>
   leValue (le32 (2 * length samples)) = (2 * length samples) mod 2 ^ 32 \<and>
   leValue (le32 16) = 16 \<and> leValue (le16 1) = 1 \<and> leValue (le16 2) = 2 \<and>
   leValue (le16 16) = 16"
  by (simp add: monoFloatToWavBlob_eq length_wavLayout leValue_le32 leValue_le16)

text \<open>The file written for the three samples 1, -1 and 1/2 at 44100 Hz, byte by byte.\<close>

theorem monoFloatToWavBlob_layout_witness:
  "monoFloatToWavBlob [Fin 1, Fin (- 1), Fin (1 / 2)] 44100 =
     Inr (Blob [[82, 73, 70, 70, 42, 0, 0, 0, 87, 65, 86, 69,
                 102, 109, 116, 32, 16, 0, 0, 0, 1, 0, 1, 0,
                 68, 172, 0, 0, 136, 88, 1, 0, 2, 0, 16, 0,
                 100, 97, 116, 97, 6, 0, 0, 0,
                 255, 127, 0, 128, 255, 63]] ''audio/wav'')"
proof -
  have q: "quantizeSample (Fin 1) = 32767" "quantizeSample (Fin (- 1)) = - 32768"
    "quantizeSample (Fin (1 / 2)) = 16383"
    by (simp_all add: quantizeSample_def scaleSample_def clampSample_def js_trunc_def)
  show ?thesis
    using monoFloatToWavBlob_layout [of "[Fin 1, Fin (- 1), Fin (1 / 2)]" 44100]
    by (simp add: wavLayout_def asciiBytes_def le32_def le16_def int16Bytes_def q)
qed

text \<open>
  Claim C4 as it is worded, for every sample rate above 0, fails where a value does not fit
  its 32-bit field: at the sample rate \<open>2 ^ 31\<close> the byte rate \<open>2 ^ 32\<close> is written as the
  four bytes 0, 0, 0, 0 (offsets 28 to 31), which read back as 0.
\<close>

theorem monoFloatToWavBlob_counterexample:
  "monoFloatToWavBlob [] 2147483648 =
     Inr (Blob [[82, 73, 70, 70, 36, 0, 0, 0, 87, 65, 86, 69,
                 102, 109, 116, 32, 16, 0, 0, 0, 1, 0, 1, 0,
                 0, 0, 0, 128, 0, 0, 0, 0, 2, 0, 16, 0,
                 100, 97, 116, 97, 0, 0, 0, 0]] ''audio/wav'') \<and>
   leValue [0, 0, 0, 0] \<noteq> 2147483648 * 2"
  by (simp add: monoFloatToWavBlob_eq wavLayout_def asciiBytes_def le32_def le16_def)

section \<open>Properties of the downmix\<close>

lemma subarray_in_range:
  "0 \<le> b \<Longrightarrow> b \<le> e \<Longrightarrow> e \<le> int (length xs) \<Longrightarrow>
   subarray xs b e = take (nat (e - b)) (drop (nat b) xs)"
  by (simp add: subarray_def Let_def min_def max_def)

lemma typedArraySet_same_length:
  "length source = length target \<Longrightarrow> typedArraySet target source = Inr source"
  by (simp add: typedArraySet_def)

text \<open>
  Claim C6. For a buffer with a single channel and every index range with
  \<open>0 \<le> startIndex \<le> endIndex \<le> length\<close>, \<open>extractMonoSamples\<close> returns without throwing
  a buffer of length \<open>endIndex - startIndex\<close> whose element \<open>i\<close> is the sample
  \<open>startIndex + i\<close> of the channel as it is: the values are copied, no arithmetic is done
  on them, whatever the rounding of the host.
\<close>

theorem extractMonoSamples_single_channel:
  assumes "channelData buffer = [d]"
    and "0 \<le> startIndex" and "startIndex \<le> endIndex" and "endIndex \<le> int (length d)"
  shows "extractMonoSamples env buffer startIndex endIndex =
           Inr (take (nat (endIndex - startIndex)) (drop (nat startIndex) d)) \<and>
         length (take (nat (endIndex - startIndex)) (drop (nat startIndex) d)) =
           nat (endIndex - startIndex) \<and>
         (\<forall>i < nat (endIndex - startIndex).
            take (nat (endIndex - startIndex)) (drop (nat startIndex) d) ! i =
              d ! (nat startIndex + i))"
proof -
  let ?slice = "take (nat (endIndex - startIndex)) (drop (nat startIndex) d)"
  have len: "length ?slice = nat (endIndex - startIndex)"
    using assms(2-4) by simp
  have sub: "subarray d startIndex endIndex = ?slice"
    by (rule subarray_in_range [OF assms(2-4)])
  have "extractMonoSamples env buffer startIndex endIndex =
      typedArraySet (replicate (nat (endIndex - startIndex)) (Fin 0)) ?slice"
    using assms(1,3)
    by (simp add: extractMonoSamples_def numberOfChannels_def getChannelData_def andThen_def
        sub Let_def)
  also have "\<dots> = Inr ?slice"
    using len by (simp add: typedArraySet_same_length)
  finally show ?thesis using len assms(2-4) by simp
qed

text \<open>The samples 1 and 2 of a four-sample channel, one of them NaN.\<close>

theorem extractMonoSamples_single_channel_witness:
  "extractMonoSamples ieeeHost
     \<lparr>sampleRate = 8000, bufferLength = 4,
      channelData = [[Fin 1, Fin (- 1 / 2), NaN, Fin (1 / 4)]]\<rparr>
     1 3 = Inr [Fin (- 1 / 2), NaN]"
  using extractMonoSamples_single_channel
    [of "\<lparr>sampleRate = 8000, bufferLength = 4,
          channelData = [[Fin 1, Fin (- 1 / 2), NaN, Fin (1 / 4)]]\<rparr>"
      "[Fin 1, Fin (- 1 / 2), NaN, Fin (1 / 4)]" 1 3 ieeeHost]
  by simp

lemmas ieee_eval =
  ieeeHost_def roundBinary_def ilog2_def bitLength.simps scaleBy_def roundHalfEven_def Let_def

text \<open>
  The rounding at known values: the 32-bit float and the double nearest to 0.1, a tie
  that goes to the even significand, a carry into the next binade, a subnormal tie that
  goes to zero, the largest 32-bit float and the overflow behind it.
\<close>

lemma roundBinary_known_values:
  "roundBinary 24 (- 126) 127 (1 / 10) = Fin (13421773 / 134217728)"
  "roundBinary 53 (- 1022) 1023 (1 / 10) = Fin (3602879701896397 / 36028797018963968)"
  "roundBinary 24 (- 126) 127 16777217 = Fin 16777216"
  "roundBinary 24 (- 126) 127 16777219 = Fin 16777220"
  "roundBinary 24 (- 126) 127 33554431 = Fin 33554432"
  "roundBinary 24 (- 126) 127 (1 / 2 ^ 150) = Fin 0"
  "roundBinary 24 (- 126) 127 (2 ^ 128 - 2 ^ 104) = Fin (2 ^ 128 - 2 ^ 104)"
  "roundBinary 24 (- 126) 127 (2 ^ 128 - 2 ^ 103) = PosInf"
  by (simp_all add: ieee_eval)

lemma sixChannels_step1:
  "addChannel ieeeHost 6 [Fin (7 / 8)] [Fin (0)] = [Fin (9786709 / 67108864)]"
  by (simp add: addChannel_def sampleAt_def ieee_eval)

lemma sixChannels_step2:
  "addChannel ieeeHost 6 [Fin (7 / 8)] [Fin (9786709 / 67108864)] = [Fin (9786709 / 33554432)]"
  by (simp add: addChannel_def sampleAt_def ieee_eval)

lemma sixChannels_step3:
  "addChannel ieeeHost 6 [Fin (7 / 8)] [Fin (9786709 / 33554432)] = [Fin (7 / 16)]"
  by (simp add: addChannel_def sampleAt_def ieee_eval)

lemma sixChannels_step4:
  "addChannel ieeeHost 6 [Fin (7 / 8)] [Fin (7 / 16)] = [Fin (9786709 / 16777216)]"
  by (simp add: addChannel_def sampleAt_def ieee_eval)

lemma sixChannels_step5:
  "addChannel ieeeHost 6 [Fin (7 / 8)] [Fin (9786709 / 16777216)] = [Fin (6116693 / 8388608)]"
  by (simp add: addChannel_def sampleAt_def ieee_eval)

lemma sixChannels_step6:
  "addChannel ieeeHost 6 [Fin (7 / 8)] [Fin (6116693 / 8388608)] = [Fin (14680063 / 16777216)]"
  by (simp add: addChannel_def sampleAt_def ieee_eval)

lemma replicate_six: "replicate 6 x = [x, x, x, x, x, x]"
  by (simp add: numeral_eq_Suc)

text \<open>
  Claim C5 as it is worded fails under the rounding of the code: each channel adds the
  double \<open>v / N\<close> to a 32-bit float. With six channels that all hold 0.875 the downmix is
  \<open>14680063 / 16777216\<close>, about 0.87499994, one unit in the last place below 0.875.
\<close>

theorem extractMonoSamples_identical_channels_counterexample:
  "extractMonoSamples ieeeHost
     \<lparr>sampleRate = 8000, bufferLength = 1, channelData = replicate 6 [Fin (7 / 8)]\<rparr> 0 1 =
   Inr [Fin (14680063 / 16777216)] \<and>
   Fin (14680063 / 16777216) \<noteq> Fin (7 / 8)"
proof -
  have sub: "subarray [Fin (7 / 8)] 0 1 = [Fin (7 / 8)]"
    by (simp add: subarray_def)
  have "extractMonoSamples ieeeHost
      \<lparr>sampleRate = 8000, bufferLength = 1, channelData = replicate 6 [Fin (7 / 8)]\<rparr> 0 1 =
      Inr (mixChannels ieeeHost 6 0 1 (replicate 6 [Fin (7 / 8)]) [Fin 0])"
    by (simp add: extractMonoSamples_def numberOfChannels_def)
  also have "mixChannels ieeeHost 6 0 1 (replicate 6 [Fin (7 / 8)]) [Fin 0] =
      [Fin (14680063 / 16777216)]"
    unfolding replicate_six mixChannels.simps sub
    by (simp only: sixChannels_step1 sixChannels_step2 sixChannels_step3 sixChannels_step4
        sixChannels_step5 sixChannels_step6)
  finally show ?thesis by simp
qed


lemma subarray_replicate:
  "0 \<le> s \<Longrightarrow> s \<le> e \<Longrightarrow> e \<le> int L \<Longrightarrow>
   subarray (replicate L x) s e = replicate (nat (e - s)) x"
proof -
  assume a: "0 \<le> s" "s \<le> e" "e \<le> int L"
  then have "nat (e - s) \<le> L - nat s" by linarith
  then have "min (nat (e - s)) (L - nat s) = nat (e - s)" by simp
  with a show ?thesis
    by (simp add: subarray_def Let_def min_absorb1 max_absorb1)
qed

text \<open>
  With identical channels every position of the downmix goes through the same steps, so
  the result is \<open>mixValue\<close> at every position.
\<close>

lemma addChannel_const:
  "addChannel env N (replicate n v) (replicate n x) = replicate n (mixStep env N v x)"
proof (rule nth_equalityI)
  show "length (addChannel env N (replicate n v) (replicate n x)) =
      length (replicate n (mixStep env N v x))"
    by (simp add: addChannel_def)
next
  fix i
  assume "i < length (addChannel env N (replicate n v) (replicate n x))"
  then have "i < n" by (simp add: addChannel_def)
  then show "addChannel env N (replicate n v) (replicate n x) ! i =
      replicate n (mixStep env N v x) ! i"
    by (simp add: addChannel_def sampleAt_def mixStep_def)
qed

lemma mixChannels_const:
  assumes "0 \<le> s" and "s \<le> e" and "e \<le> int L"
  shows "mixChannels env N s e (replicate j (replicate L v)) (replicate (nat (e - s)) x) =
         replicate (nat (e - s)) ((mixStep env N v ^^ j) x)"
proof (induction j arbitrary: x)
  case 0
  show ?case by simp
next
  case (Suc j)
  show ?case
    by (simp add: subarray_replicate [OF assms] addChannel_const Suc.IH funpow_swap1)
qed

lemma extractMonoSamples_const:
  assumes "channelData buffer = replicate N (replicate L v)" and "N \<noteq> 1"
    and "0 \<le> s" and "s \<le> e" and "e \<le> int L"
  shows "extractMonoSamples env buffer s e = Inr (replicate (nat (e - s)) (mixValue env N v))"
  using assms(1,2,4)
  by (simp add: extractMonoSamples_def numberOfChannels_def mixValue_def
      mixChannels_const [OF assms(3-5)])

subsection \<open>The error of one rounding\<close>

text \<open>
  \<open>roundBinary\<close> returns a number within half a unit in the last place of its argument:
  the relative error is at most \<open>2\<close> to the power \<open>- p\<close>, and the absolute error of a
  subnormal at most \<open>2\<close> to the power \<open>emin - p\<close>.
\<close>

lemma bitLength_nonneg: "0 \<le> bitLength n"
  by (induction n rule: bitLength.induct) (subst bitLength.simps, simp)

lemma bitLength_upper: "0 \<le> n \<Longrightarrow> n < 2 ^ nat (bitLength n)"
proof (induction n rule: bitLength.induct)
  case (1 n)
  show ?case
  proof (cases "n \<le> 0")
    case True
    with "1.prems" show ?thesis by (subst bitLength.simps) simp
  next
    case False
    then have IH: "n div 2 < 2 ^ nat (bitLength (n div 2))"
      using "1.IH" "1.prems" by simp
    have "nat (1 + bitLength (n div 2)) = Suc (nat (bitLength (n div 2)))"
      using bitLength_nonneg [of "n div 2"] by simp
    moreover have "n < 2 * (n div 2 + 1)" by simp
    ultimately show ?thesis
      using False IH by (subst bitLength.simps) simp
  qed
qed

lemma bitLength_lower: "1 \<le> n \<Longrightarrow> 2 ^ nat (bitLength n - 1) \<le> n"
proof (induction n rule: bitLength.induct)
  case (1 n)
  then have pos: "\<not> n \<le> 0" by simp
  show ?case
  proof (cases "n = 1")
    case True
    then show ?thesis by (simp add: bitLength.simps)
  next
    case False
    with "1.prems" have h: "1 \<le> n div 2" by simp
    from "1.IH" [OF pos h] have IH: "2 ^ nat (bitLength (n div 2) - 1) \<le> n div 2" .
    have b: "1 \<le> bitLength (n div 2)"
      using h by (subst bitLength.simps) (simp add: bitLength_nonneg)
    then have "nat (1 + bitLength (n div 2) - 1) = Suc (nat (bitLength (n div 2) - 1))"
      by simp
    moreover have "2 * (n div 2) \<le> n" by simp
    ultimately show ?thesis
      using pos IH by (subst bitLength.simps) simp
  qed
qed


lemma ilog2_lower:
  assumes "0 < x"
  shows "2 powi (ilog2 x) \<le> x"
proof (cases "1 \<le> x")
  case True
  then have n: "1 \<le> \<lfloor>x\<rfloor>" by simp
  have nn: "0 \<le> bitLength \<lfloor>x\<rfloor> - 1"
    using n by (subst bitLength.simps) (simp add: bitLength_nonneg)
  have "2 powi (bitLength \<lfloor>x\<rfloor> - 1) = (2::real) ^ nat (bitLength \<lfloor>x\<rfloor> - 1)"
    using nn by (simp add: power_int_def)
  also have "\<dots> = of_int (2 ^ nat (bitLength \<lfloor>x\<rfloor> - 1))" by simp
  also have "\<dots> \<le> of_int \<lfloor>x\<rfloor>"
    using bitLength_lower [OF n] by (simp only: of_int_le_iff)
  also have "\<dots> \<le> x" by simp
  finally show ?thesis using True by (simp add: ilog2_def)
next
  case False
  let ?c = "\<lceil>1 / x\<rceil>"
  let ?b = "bitLength (?c - 1)"
  have "1 < 1 / x" using False assms by simp
  then have c: "2 \<le> ?c" by (simp add: le_ceiling_iff)
  from c have "0 \<le> ?c - 1" by linarith
  then have "?c - 1 < 2 ^ nat ?b" by (rule bitLength_upper)
  then have "?c \<le> 2 ^ nat ?b" by simp
  then have "of_int ?c \<le> (of_int (2 ^ nat ?b) :: real)" by (simp only: of_int_le_iff)
  then have "of_int ?c \<le> (2 ^ nat ?b :: real)" by simp
  with le_of_int_ceiling [of "1 / x"] have "1 / x \<le> 2 ^ nat ?b"
    by (rule order_trans)
  then have "1 / 2 ^ nat ?b \<le> x"
    using assms by (simp add: field_simps)
  moreover have "2 powi (- ?b) = 1 / (2::real) ^ nat ?b"
    using bitLength_nonneg [of "?c - 1"] by (simp add: power_int_def field_simps)
  ultimately show ?thesis using False by (simp add: ilog2_def)
qed

lemma roundHalfEven_error: "\<bar>of_int (roundHalfEven z) - z\<bar> \<le> 1 / 2"
proof -
  have "of_int \<lfloor>z\<rfloor> \<le> z" and "z < of_int \<lfloor>z\<rfloor> + 1" by linarith+
  then show ?thesis
    by (auto simp: roundHalfEven_def Let_def)
qed

lemma scaleBy_powi: "scaleBy x s = x * 2 powi s"
  by (simp add: scaleBy_def power_int_def field_simps)


lemma powi_max: "(2::real) powi (max a b) \<le> 2 powi a + 2 powi b"
proof (cases "a \<le> b")
  case True
  have "0 < (2::real) powi a" by simp
  with True show ?thesis by (simp add: max_def)
next
  case False
  have "0 < (2::real) powi b" by simp
  with False show ?thesis by (simp add: max_def)
qed

lemma roundBinary_error:
  assumes p: "2 \<le> p" and em: "emin \<le> emax" and x: "\<bar>x\<bar> \<le> 2 powi emax"
  shows "\<exists>y. roundBinary p emin emax x = Fin y \<and>
           \<bar>y - x\<bar> \<le> (\<bar>x\<bar> + 2 powi emin) * 2 powi (- int p)"
proof (cases "x = 0")
  case True
  have "0 \<le> (2::real) powi emin * 2 powi (- int p)" by simp
  with True show ?thesis by (simp add: roundBinary_def)
next
  case False
  define e where "e = max (ilog2 \<bar>x\<bar>) emin"
  define s where "s = e - (int p - 1)"
  define z :: real where "z = x * 2 powi (- s)"
  define y :: real where "y = of_int (roundHalfEven z) * 2 powi s"
  have xz: "x = z * 2 powi s"
    by (simp add: z_def power_int_minus field_simps)
  have "y - x = (of_int (roundHalfEven z) - z) * 2 powi s"
    unfolding y_def by (subst xz) (simp add: left_diff_distrib)
  then have "\<bar>y - x\<bar> = \<bar>of_int (roundHalfEven z) - z\<bar> * 2 powi s"
    by (simp add: abs_mult)
  also have "\<dots> \<le> 1 / 2 * 2 powi s"
    by (rule mult_right_mono [OF roundHalfEven_error]) simp
  also have "1 / 2 * 2 powi s = (2::real) powi e * 2 powi (- int p)"
  proof -
    have "(2::real) powi (e + (- int p) + 1) = 2 powi (e + (- int p)) * 2 powi 1"
      by (rule power_int_add) simp
    also have "(2::real) powi (e + (- int p)) = 2 powi e * 2 powi (- int p)"
      by (rule power_int_add) simp
    finally have "(2::real) powi (e + (- int p) + 1) = 2 powi e * 2 powi (- int p) * 2"
      by simp
    moreover have "s = e + (- int p) + 1" by (simp add: s_def)
    ultimately show ?thesis by simp
  qed
  also have "\<dots> \<le> (2 powi (ilog2 \<bar>x\<bar>) + 2 powi emin) * 2 powi (- int p)"
    unfolding e_def by (rule mult_right_mono [OF powi_max]) simp
  also have "\<dots> \<le> (\<bar>x\<bar> + 2 powi emin) * 2 powi (- int p)"
    using ilog2_lower [of "\<bar>x\<bar>"] False by (intro mult_right_mono) simp_all
  finally have err: "\<bar>y - x\<bar> \<le> (\<bar>x\<bar> + 2 powi emin) * 2 powi (- int p)" .
  have q: "(2::real) powi (- int p) \<le> 1 / 4"
  proof -
    have "(2::real) ^ 2 \<le> 2 ^ p" using p by (intro power_increasing) simp_all
    then show ?thesis by (simp add: power_int_minus field_simps)
  qed
  have "(2::real) powi emin \<le> 2 powi emax"
    using em by (intro power_int_increasing) simp_all
  with x have "\<bar>x\<bar> + 2 powi emin \<le> 2 * 2 powi emax" by simp
  then have "(\<bar>x\<bar> + 2 powi emin) * 2 powi (- int p) \<le> (2 * 2 powi emax) * (1 / 4)"
    using q by (intro mult_mono) simp_all
  with err have "\<bar>y - x\<bar> \<le> 2 powi emax / 2" by simp
  with x have "\<bar>y\<bar> \<le> 2 powi emax + 2 powi emax / 2" by linarith
  moreover have "0 < (2::real) powi emax" by simp
  moreover have "(2::real) powi (emax + 1) = 2 * 2 powi emax"
    by (simp add: power_int_add)
  ultimately have "\<not> 2 powi (emax + 1) \<le> \<bar>y\<bar>" by linarith
  then have "roundBinary p emin emax x = Fin y"
    using False
    by (simp add: roundBinary_def Let_def scaleBy_powi y_def z_def s_def e_def)
  with err show ?thesis by blast
qed

lemma round64_error:
  assumes "\<bar>x\<bar> \<le> 2 ^ 1023"
  shows "\<exists>y. roundBinary 53 (- 1022) 1023 x = Fin y \<and>
           \<bar>y - x\<bar> \<le> \<bar>x\<bar> / 2 ^ 53 + 1 / 2 ^ 1075"
proof -
  have "\<bar>x\<bar> \<le> 2 powi 1023" using assms by simp
  from roundBinary_error [of 53 "- 1022" 1023 x, OF _ _ this]
  obtain y where y: "roundBinary 53 (- 1022) 1023 x = Fin y"
    and e: "\<bar>y - x\<bar> \<le> (\<bar>x\<bar> + 2 powi (- 1022)) * 2 powi (- int 53)"
    by auto
  have "(\<bar>x\<bar> + 2 powi (- 1022)) * 2 powi (- int 53) = \<bar>x\<bar> / 2 ^ 53 + 1 / 2 ^ 1075"
    by (simp add: power_int_minus field_simps)
  with y e show ?thesis by auto
qed

lemma round32_error:
  assumes "\<bar>x\<bar> \<le> 2 ^ 127"
  shows "\<exists>y. roundBinary 24 (- 126) 127 x = Fin y \<and>
           \<bar>y - x\<bar> \<le> \<bar>x\<bar> / 2 ^ 24 + 1 / 2 ^ 150"
proof -
  have "\<bar>x\<bar> \<le> 2 powi 127" using assms by simp
  from roundBinary_error [of 24 "- 126" 127 x, OF _ _ this]
  obtain y where y: "roundBinary 24 (- 126) 127 x = Fin y"
    and e: "\<bar>y - x\<bar> \<le> (\<bar>x\<bar> + 2 powi (- 126)) * 2 powi (- int 24)"
    by auto
  have "(\<bar>x\<bar> + 2 powi (- 126)) * 2 powi (- int 24) = \<bar>x\<bar> / 2 ^ 24 + 1 / 2 ^ 150"
    by (simp add: power_int_minus field_simps)
  with y e show ?thesis by auto
qed

subsection \<open>The error of the downmix of identical channels\<close>

text \<open>
  After \<open>k\<close> of the \<open>N\<close> channels the stored value is within \<open>k * mixTolerance v\<close> of
  \<open>k * v / N\<close>; it is exactly \<open>k * v / N\<close> when none of the steps rounds.
\<close>

lemma mixStep_ieee:
  assumes N: "N \<noteq> 0"
    and q: "roundBinary 53 (- 1022) 1023 (v / real N) = Fin q"
    and t: "roundBinary 53 (- 1022) 1023 (m + q) = Fin t"
    and m': "roundBinary 24 (- 126) 127 t = Fin m'"
  shows "mixStep ieeeHost N (Fin v) (Fin m) = Fin m'"
  using assms by (simp add: mixStep_def ieeeHost_def)

lemma mix_chain:
  assumes N: "1 \<le> N" "N \<le> 2 ^ 20" and v: "\<bar>v\<bar> \<le> 2 ^ 126" and k: "k \<le> N"
  shows "\<exists>m. (mixStep ieeeHost N (Fin v) ^^ k) (Fin 0) = Fin m \<and>
           \<bar>m - real k * (v / real N)\<bar> \<le> real k * mixTolerance v"
  using k
proof (induction k)
  case 0
  show ?case by simp
next
  case (Suc k)
  define A where "A = \<bar>v\<bar>"
  define c where "c = v / real N"
  define G where "G = mixTolerance v"
  have A0: "0 \<le> A" by (simp add: A_def)
  have G_eq: "G = A / 2 ^ 23 + 1 / 2 ^ 149" by (simp add: G_def mixTolerance_def A_def)
  have Npos: "0 < real N" using N(1) by simp
  have cN: "\<bar>c\<bar> * real N = A"
    using Npos by (simp add: c_def A_def abs_divide)
  have cA: "\<bar>c\<bar> \<le> A"
  proof -
    have "\<bar>c\<bar> * 1 \<le> \<bar>c\<bar> * real N" using N(1) by (intro mult_left_mono) simp_all
    with cN show ?thesis by simp
  qed
  have k1c: "\<bar>real (Suc k) * c\<bar> \<le> A"
  proof -
    have "real (Suc k) * \<bar>c\<bar> \<le> real N * \<bar>c\<bar>"
      using Suc.prems by (intro mult_right_mono) simp_all
    with cN show ?thesis by (simp add: abs_mult mult.commute)
  qed
  have kG: "real k * G \<le> A / 8 + 1 / 2 ^ 129"
  proof -
    have G0: "0 \<le> G" using A0 by (simp add: G_eq)
    have "real k \<le> 2 ^ 20"
    proof -
      have "k \<le> 2 ^ 20" using Suc.prems N(2) by simp
      then have "real k \<le> real (2 ^ 20)" by (simp only: of_nat_le_iff)
      then show ?thesis by simp
    qed
    then have "real k * G \<le> 2 ^ 20 * G" using G0 by (intro mult_right_mono)
    also have "2 ^ 20 * G = A / 8 + 1 / 2 ^ 129" by (simp add: G_eq)
    finally show ?thesis .
  qed
  from Suc.IH Suc.prems obtain m where
    m: "(mixStep ieeeHost N (Fin v) ^^ k) (Fin 0) = Fin m"
    and hm: "\<bar>m - real k * c\<bar> \<le> real k * G"
    by (auto simp: c_def G_def)
  have A126: "A \<le> 2 ^ 126" using v by (simp add: A_def)
  have "\<bar>c\<bar> \<le> 2 ^ 1023"
  proof -
    have "(2::real) ^ 126 \<le> 2 ^ 1023" by (intro power_increasing) simp_all
    with cA A126 show ?thesis by linarith
  qed
  from round64_error [OF this] obtain q where
    q: "roundBinary 53 (- 1022) 1023 c = Fin q"
    and hq: "\<bar>q - c\<bar> \<le> \<bar>c\<bar> / 2 ^ 53 + 1 / 2 ^ 1075"
    by auto
  have e1: "\<bar>(m + q) - real (Suc k) * c\<bar> \<le> real k * G + A / 2 ^ 53 + 1 / 2 ^ 1075"
  proof -
    have "(m + q) - real (Suc k) * c = (m - real k * c) + (q - c)"
      by (simp add: algebra_simps)
    then have "\<bar>(m + q) - real (Suc k) * c\<bar> \<le> \<bar>m - real k * c\<bar> + \<bar>q - c\<bar>"
      by (simp only: abs_triangle_ineq)
    moreover have "\<bar>c\<bar> / 2 ^ 53 \<le> A / 2 ^ 53" using cA by (simp add: divide_right_mono)
    ultimately show ?thesis using hm hq by linarith
  qed
  have s1: "\<bar>m + q\<bar> \<le> A + (A / 8 + 1 / 2 ^ 129) + A / 2 ^ 53 + 1 / 2 ^ 1075"
  proof -
    have "\<bar>m + q\<bar> \<le> \<bar>real (Suc k) * c\<bar> + \<bar>(m + q) - real (Suc k) * c\<bar>"
      by linarith
    with k1c e1 kG show ?thesis by linarith
  qed
  have s2: "\<bar>m + q\<bar> \<le> 2 * A + 1 / 2 ^ 128"
  proof -
    have "A / 2 ^ 53 \<le> A / 8" using A0 by (intro divide_left_mono) simp_all
    moreover have "(1::real) / 2 ^ 129 + 1 / 2 ^ 1075 \<le> 1 / 2 ^ 128" by simp
    ultimately show ?thesis using s1 A0 by linarith
  qed
  have "\<bar>m + q\<bar> \<le> 2 ^ 1023"
  proof -
    have "2 * A + 1 / 2 ^ 128 \<le> (2::real) ^ 1023" using A126 by simp
    with s2 show ?thesis by linarith
  qed
  from round64_error [OF this] obtain t where
    t: "roundBinary 53 (- 1022) 1023 (m + q) = Fin t"
    and ht: "\<bar>t - (m + q)\<bar> \<le> \<bar>m + q\<bar> / 2 ^ 53 + 1 / 2 ^ 1075"
    by auto
  have sd: "\<bar>m + q\<bar> / 2 ^ 53 \<le> A / 2 ^ 52 + 1 / 2 ^ 181"
  proof -
    have "\<bar>m + q\<bar> / 2 ^ 53 \<le> (2 * A + 1 / 2 ^ 128) / 2 ^ 53"
      using s2 by (simp add: divide_right_mono)
    also have "\<dots> = A / 2 ^ 52 + 1 / 2 ^ 181" by (simp add: add_divide_distrib)
    finally show ?thesis .
  qed
  have t1: "\<bar>t\<bar> \<le> A + A / 8 + A / 16 + A / 16 + 1 / 2 ^ 127"
  proof -
    have a: "\<bar>t\<bar> \<le> \<bar>real (Suc k) * c\<bar> + \<bar>(m + q) - real (Suc k) * c\<bar> + \<bar>t - (m + q)\<bar>"
      by linarith
    have "A / 2 ^ 53 \<le> A / 16" using A0 by (intro divide_left_mono) simp_all
    moreover have "A / 2 ^ 52 \<le> A / 16" using A0 by (intro divide_left_mono) simp_all
    moreover have "(1::real) / 2 ^ 129 + 1 / 2 ^ 1075 + 1 / 2 ^ 181 + 1 / 2 ^ 1075 \<le> 1 / 2 ^ 127"
      by simp
    ultimately show ?thesis
      using a k1c e1 kG ht sd A0 by linarith
  qed
  have "\<bar>t\<bar> \<le> 2 ^ 127"
  proof -
    have "A + A / 8 + A / 16 + A / 16 + 1 / 2 ^ 127 \<le> (2::real) ^ 127" using A126 by simp
    with t1 show ?thesis by linarith
  qed
  from round32_error [OF this] obtain m' where
    m': "roundBinary 24 (- 126) 127 t = Fin m'"
    and hm': "\<bar>m' - t\<bar> \<le> \<bar>t\<bar> / 2 ^ 24 + 1 / 2 ^ 150"
    by auto
  have td: "\<bar>t\<bar> / 2 ^ 24 \<le> A / 2 ^ 23 - A / 2 ^ 51 + 1 / 2 ^ 151"
  proof -
    have "\<bar>t\<bar> / 2 ^ 24 \<le> (A + A / 8 + A / 16 + A / 16 + 1 / 2 ^ 127) / 2 ^ 24"
      using t1 by (simp add: divide_right_mono)
    also have "\<dots> \<le> A / 2 ^ 23 - A / 2 ^ 51 + 1 / 2 ^ 151"
      using A0 by (simp add: field_simps)
    finally show ?thesis .
  qed
  have "\<bar>m' - real (Suc k) * c\<bar> \<le>
      \<bar>m' - t\<bar> + \<bar>t - (m + q)\<bar> + \<bar>(m + q) - real (Suc k) * c\<bar>"
    by linarith
  moreover have "(1::real) / 2 ^ 150 + 1 / 2 ^ 151 + 1 / 2 ^ 181 + 1 / 2 ^ 1075 + 1 / 2 ^ 1075
      \<le> 1 / 2 ^ 149"
    by simp
  moreover have "A / 2 ^ 52 + A / 2 ^ 53 \<le> A / 2 ^ 51"
    using A0 by (simp add: field_simps)
  ultimately have "\<bar>m' - real (Suc k) * c\<bar> \<le> real k * G + A / 2 ^ 23 + 1 / 2 ^ 149"
    using hm' ht e1 td sd by linarith
  also have "\<dots> = real k * G + G" by (simp only: G_eq add.assoc)
  also have "\<dots> = real (Suc k) * G" by (simp add: distrib_right)
  finally have "\<bar>m' - real (Suc k) * c\<bar> \<le> real (Suc k) * G" .
  moreover have "(mixStep ieeeHost N (Fin v) ^^ Suc k) (Fin 0) = Fin m'"
    using mixStep_ieee [of N v q m t m'] N(1) q t m' m by (simp add: c_def)
  ultimately show ?case by (auto simp: c_def G_def)
qed


lemma mix_exact:
  assumes N: "N \<noteq> 0"
    and un: "\<forall>k\<in>{1..N}. roundsNothing env (real k * (v / real N))"
    and j: "j \<le> N"
  shows "(mixStep env N (Fin v) ^^ j) (Fin 0) = Fin (real j * (v / real N))"
  using j
proof (induction j)
  case 0
  show ?case by simp
next
  case (Suc j)
  have "1 \<in> {1..N}" using N by simp
  from un [rule_format, OF this]
  have q: "round64 env (v / real N) = Fin (v / real N)"
    by (simp add: roundsNothing_def)
  have "Suc j \<in> {1..N}" using Suc.prems by simp
  from un [rule_format, OF this]
  have r: "roundsNothing env (real j * (v / real N) + v / real N)"
    by (simp add: distrib_right add_divide_distrib add.commute)
  have "mixStep env N (Fin v) (Fin (real j * (v / real N))) =
      Fin (real j * (v / real N) + v / real N)"
    using N q r by (simp add: mixStep_def roundsNothing_def)
  moreover have "real j * (v / real N) + v / real N = real (Suc j) * (v / real N)"
    by (simp add: distrib_right add_divide_distrib)
  ultimately show ?case using Suc by simp
qed

text \<open>
  Rounding does not always show in the result: three channels of 1.0 mix to exactly 1.0
  although the third of 1.0 is rounded. And the result is not exact for two channels
  either: for the smallest positive 32-bit float the half is stored as 0.
\<close>

lemma funpow_2: "(f ^^ 2) x = f (f x)"
  by (simp add: numeral_2_eq_2)

lemma funpow_3: "(f ^^ 3) x = f (f (f x))"
  by (simp add: numeral_3_eq_3)

lemma threeChannels_steps:
  "mixStep ieeeHost 3 (Fin 1) (Fin 0) = Fin (11184811 / 33554432)"
  "mixStep ieeeHost 3 (Fin 1) (Fin (11184811 / 33554432)) = Fin (11184811 / 16777216)"
  "mixStep ieeeHost 3 (Fin 1) (Fin (11184811 / 16777216)) = Fin 1"
  by (simp_all add: mixStep_def ieee_eval)

lemma mixValue_three_ones:
  "mixValue ieeeHost 3 (Fin 1) = Fin 1 \<and> \<not> roundsNothing ieeeHost (1 / 3)"
proof
  show "mixValue ieeeHost 3 (Fin 1) = Fin 1"
    unfolding mixValue_def funpow_3 threeChannels_steps by (rule refl)
  show "\<not> roundsNothing ieeeHost (1 / 3)"
    by (simp add: roundsNothing_def ieee_eval)
qed

lemma twoChannels_steps:
  "mixStep ieeeHost 2 (Fin (1 / 2 ^ 149)) (Fin 0) = Fin 0"
  by (simp add: mixStep_def ieee_eval)

lemma mixValue_two_subnormal:
  "mixValue ieeeHost 2 (Fin (1 / 2 ^ 149)) = Fin 0 \<and>
   round32 ieeeHost (1 / 2 ^ 149) = Fin (1 / 2 ^ 149)"
proof
  show "mixValue ieeeHost 2 (Fin (1 / 2 ^ 149)) = Fin 0"
    unfolding mixValue_def funpow_2 twoChannels_steps by (rule refl)
  show "round32 ieeeHost (1 / 2 ^ 149) = Fin (1 / 2 ^ 149)"
    by (simp add: ieee_eval)
qed

text \<open>
  Claim C5, amended. For every channel count \<open>N \<ge> 2\<close> and every index range with
  \<open>0 \<le> startIndex \<le> endIndex \<le> length\<close>, if all \<open>N\<close> channels hold the value \<open>v\<close> at each
  position, the downmix of the range under the IEEE 754 arithmetic of the code returns,
  without throwing, a buffer of length \<open>endIndex - startIndex\<close> whose elements are all the
  same value \<open>mixValue ieeeHost N v\<close>, and
  \<^item> for \<open>N \<le> 2 ^ 20\<close> and \<open>\<bar>v\<bar> \<le> 2 ^ 126\<close> that value is a finite number \<open>y\<close> with
    \<open>\<bar>y - v\<bar> \<le> N * (\<bar>v\<bar> / 2 ^ 23 + 1 / 2 ^ 149)\<close>: it equals \<open>v\<close> up to the rounding of the
    \<open>N\<close> steps, each to a 32-bit float;
  \<^item> that value is exactly \<open>v\<close> whenever none of the numbers \<open>v / N\<close>, \<open>2 * v / N\<close>, ...,
    \<open>N * v / N\<close> is rounded, as for two channels when \<open>v / 2\<close> is a 32-bit float.
\<close>

theorem extractMonoSamples_identical_channels:
  assumes "channelData buffer = replicate N (replicate L (Fin v))" and "2 \<le> N"
    and "0 \<le> startIndex" and "startIndex \<le> endIndex" and "endIndex \<le> int L"
  shows "extractMonoSamples ieeeHost buffer startIndex endIndex =
           Inr (replicate (nat (endIndex - startIndex)) (mixValue ieeeHost N (Fin v))) \<and>
         (N \<le> 2 ^ 20 \<and> \<bar>v\<bar> \<le> 2 ^ 126 \<longrightarrow>
            (\<exists>y. mixValue ieeeHost N (Fin v) = Fin y \<and>
                 \<bar>y - v\<bar> \<le> real N * (\<bar>v\<bar> / 2 ^ 23 + 1 / 2 ^ 149))) \<and>
         ((\<forall>k\<in>{1..N}. roundsNothing ieeeHost (real k * (v / real N))) \<longrightarrow>
            mixValue ieeeHost N (Fin v) = Fin v)"
proof (intro conjI impI)
  have "N \<noteq> 1" using assms(2) by simp
  then show "extractMonoSamples ieeeHost buffer startIndex endIndex =
      Inr (replicate (nat (endIndex - startIndex)) (mixValue ieeeHost N (Fin v)))"
    by (rule extractMonoSamples_const [OF assms(1) _ assms(3-5)])
next
  assume a: "N \<le> 2 ^ 20 \<and> \<bar>v\<bar> \<le> 2 ^ 126"
  have N1: "1 \<le> N" using assms(2) by simp
  from mix_chain [OF N1, of v N] a obtain m where
    m: "(mixStep ieeeHost N (Fin v) ^^ N) (Fin 0) = Fin m"
    and e: "\<bar>m - real N * (v / real N)\<bar> \<le> real N * mixTolerance v"
    by auto
  have "real N * (v / real N) = v" using N1 by simp
  with m e show "\<exists>y. mixValue ieeeHost N (Fin v) = Fin y \<and>
      \<bar>y - v\<bar> \<le> real N * (\<bar>v\<bar> / 2 ^ 23 + 1 / 2 ^ 149)"
    by (auto simp: mixValue_def mixTolerance_def)
next
  assume un: "\<forall>k\<in>{1..N}. roundsNothing ieeeHost (real k * (v / real N))"
  have N0: "N \<noteq> 0" using assms(2) by simp
  from mix_exact [OF N0 un, of N] N0
  show "mixValue ieeeHost N (Fin v) = Fin v"
    by (simp add: mixValue_def)
qed

text \<open>
  Two channels of 0.875 under IEEE rounding: 0.4375 and 0.875 are 32-bit floats, and the
  downmix of the samples 1 and 2 is 0.875 twice. Three channels of 1.0: the third of 1.0
  is rounded, and the downmix of the two samples is twice the same number, within
  \<open>3 * (1 / 2 ^ 23 + 1 / 2 ^ 149)\<close> of 1.0.
\<close>

theorem extractMonoSamples_identical_channels_witness:
  "extractMonoSamples ieeeHost
     \<lparr>sampleRate = 8000, bufferLength = 3,
      channelData = [[Fin (7 / 8), Fin (7 / 8), Fin (7 / 8)],
                     [Fin (7 / 8), Fin (7 / 8), Fin (7 / 8)]]\<rparr> 1 3 =
   Inr [Fin (7 / 8), Fin (7 / 8)] \<and>
   (\<exists>y. extractMonoSamples ieeeHost
          \<lparr>sampleRate = 8000, bufferLength = 2,
           channelData = [[Fin 1, Fin 1], [Fin 1, Fin 1], [Fin 1, Fin 1]]\<rparr> 0 2 =
        Inr [Fin y, Fin y] \<and>
        \<bar>y - 1\<bar> \<le> 3 * (1 / 2 ^ 23 + 1 / 2 ^ 149))"
proof -
  have r: "roundsNothing ieeeHost (7 / 16)" "roundsNothing ieeeHost (7 / 8)"
    by (simp_all add: roundsNothing_def ieee_eval)
  have h: "\<forall>k\<in>{1..2}. roundsNothing ieeeHost (real k * (7 / 8 / real 2))"
  proof
    fix k :: nat assume "k \<in> {1..2}"
    then have "k = 1 \<or> k = 2" by auto
    then show "roundsNothing ieeeHost (real k * (7 / 8 / real 2))"
      using r by auto
  qed
  have c: "[[Fin (7 / 8), Fin (7 / 8), Fin (7 / 8)], [Fin (7 / 8), Fin (7 / 8), Fin (7 / 8)]] =
      replicate 2 (replicate 3 (Fin (7 / 8)))"
    "[[Fin 1, Fin 1], [Fin 1, Fin 1], [Fin 1, Fin 1]] = replicate 3 (replicate 2 (Fin 1))"
    by (simp_all add: numeral_eq_Suc)
  have n: "replicate 2 x = [x, x]" for x :: jsnum
    by (simp add: numeral_eq_Suc)
  have "extractMonoSamples ieeeHost
     \<lparr>sampleRate = 8000, bufferLength = 3,
      channelData = [[Fin (7 / 8), Fin (7 / 8), Fin (7 / 8)],
                     [Fin (7 / 8), Fin (7 / 8), Fin (7 / 8)]]\<rparr> 1 3 =
     Inr [Fin (7 / 8), Fin (7 / 8)]"
    using extractMonoSamples_identical_channels
      [of "\<lparr>sampleRate = 8000, bufferLength = 3,
            channelData = [[Fin (7 / 8), Fin (7 / 8), Fin (7 / 8)],
                           [Fin (7 / 8), Fin (7 / 8), Fin (7 / 8)]]\<rparr>"
        2 3 "7 / 8" 1 3] h
    by (simp add: c [symmetric] n)
  moreover have "\<exists>y. extractMonoSamples ieeeHost
          \<lparr>sampleRate = 8000, bufferLength = 2,
           channelData = [[Fin 1, Fin 1], [Fin 1, Fin 1], [Fin 1, Fin 1]]\<rparr> 0 2 =
        Inr [Fin y, Fin y] \<and>
        \<bar>y - 1\<bar> \<le> 3 * (1 / 2 ^ 23 + 1 / 2 ^ 149)"
  proof -
    have p: "channelData \<lparr>sampleRate = 8000, bufferLength = 2,
        channelData = [[Fin 1, Fin 1], [Fin 1, Fin 1], [Fin 1, Fin 1]]\<rparr> =
        replicate 3 (replicate 2 (Fin 1))"
      by (simp add: c)
    note th = extractMonoSamples_identical_channels [OF p, of 0 2]
    from th have e: "extractMonoSamples ieeeHost
          \<lparr>sampleRate = 8000, bufferLength = 2,
           channelData = [[Fin 1, Fin 1], [Fin 1, Fin 1], [Fin 1, Fin 1]]\<rparr> 0 2 =
        Inr (replicate 2 (mixValue ieeeHost 3 (Fin 1)))"
      by simp
    from th have "\<exists>y. mixValue ieeeHost 3 (Fin 1) = Fin y \<and>
        \<bar>y - 1\<bar> \<le> 3 * (1 / 2 ^ 23 + 1 / 2 ^ 149)"
      by simp
    then obtain y where "mixValue ieeeHost 3 (Fin 1) = Fin y"
      and "\<bar>y - 1\<bar> \<le> 3 * (1 / 2 ^ 23 + 1 / 2 ^ 149)" by auto
    with e show ?thesis unfolding n by auto
  qed
  ultimately show ?thesis by simp
qed

section \<open>Properties of the pipeline and of the batch\<close>

lemma runBtnClick_valid:
  "length files \<noteq> 0 \<Longrightarrow> js_gt e s \<Longrightarrow>
   runBtnClick env files s e r f q =
     (let pg' = runFiles env (batchParams s e r f q) files
                  \<lparr>logText = [LogFileCount (length files), LogSettings s e r f], downloads = []\<rparr>
      in pg'\<lparr>logText := logText pg' @ [LogAllDone]\<rparr>)"
  by (simp add: runBtnClick_def batchParams_def Let_def)

text \<open>
  Claim C9. The click handler validates before it runs any file: with no file selected its
  whole effect is the one line \<open>LogNoFiles\<close>, and with an end time that is not greater than
  the start time (NaN included) the one line \<open>LogBadRange\<close>; no file is started and no
  download is made. Otherwise every file is run with the quality \<open>clampQuality q\<close>, which
  is 3 for an unparseable field and is clamped to \<open>[0, 10]\<close>.
\<close>

theorem runBtnClick_validation:
  "(length files = 0 \<longrightarrow>
      runBtnClick env files s e r f q = \<lparr>logText = [LogNoFiles], downloads = []\<rparr>) \<and>
   (length files \<noteq> 0 \<and> \<not> js_gt e s \<longrightarrow>
      runBtnClick env files s e r f q = \<lparr>logText = [LogBadRange], downloads = []\<rparr>) \<and>
   (length files \<noteq> 0 \<and> js_gt e s \<longrightarrow>
      runBtnClick env files s e r f q =
        (let pg' = runFiles env (batchParams s e r f q) files
                  \<lparr>logText = [LogFileCount (length files), LogSettings s e r f],
                   downloads = []\<rparr>
         in pg'\<lparr>logText := logText pg' @ [LogAllDone]\<rparr>)) \<and>
   oggQuality (batchParams s e r f q) = clampQuality q \<and>
   clampQuality None = 3 \<and>
   clampQuality (Some k) = min 10 (max 0 k) \<and>
   0 \<le> clampQuality q \<and> clampQuality q \<le> 10"
  by (auto simp: runBtnClick_valid runBtnClick_def batchParams_def clampQuality_def Let_def
      split: option.splits)

lemma runFile_eq:
  "runFile env p file pg =
     pg\<lparr>logText := logText pg @ fileLog env p file,
        downloads := downloads pg @ fileDownloads env p file\<rparr>"
  by (cases "processSingleFile env file p")
     (auto simp: runFile_def fileLog_def fileDownloads_def split: sum.splits option.splits)

lemma runFiles_eq:
  "runFiles env p files pg =
     pg\<lparr>logText := logText pg @ concat (map (fileLog env p) files),
        downloads := downloads pg @ concat (map (fileDownloads env p) files)\<rparr>"
  by (induction files arbitrary: pg) (simp_all add: runFile_eq)


lemma encodeAndDownload_shape:
  assumes "filter isStartLine lg = [LogStart n]" and "filter isResultLine lg = []"
  shows "filter isStartLine (case encodeAndDownload env file p sr m lg of
            (lg', Inl e) \<Rightarrow> lg' @ [LogException (name file) e] | (lg', Inr r) \<Rightarrow> lg') =
           [LogStart n] \<and>
         length (filter isResultLine (case encodeAndDownload env file p sr m lg of
            (lg', Inl e) \<Rightarrow> lg' @ [LogException (name file) e] | (lg', Inr r) \<Rightarrow> lg')) = 1 \<and>
         length (filter isSuccessLine (case encodeAndDownload env file p sr m lg of
            (lg', Inl e) \<Rightarrow> lg' @ [LogException (name file) e] | (lg', Inr r) \<Rightarrow> lg')) =
         length (case encodeAndDownload env file p sr m lg of
            (lg', Inr (Some d)) \<Rightarrow> [d] | (lg', r) \<Rightarrow> [])"
proof -
  have s: "filter isSuccessLine lg = []"
    using assms(2) by (induction lg) (auto simp: isResultLine_def split: if_splits)
  show ?thesis
    using assms s
    by (auto simp: encodeAndDownload_def Let_def isResultLine_def split: sum.splits)
qed

lemma fileLog_shape:
  "filter isStartLine (fileLog env p file) = [LogStart (name file)] \<and>
   length (filter isResultLine (fileLog env p file)) = 1 \<and>
   length (filter isSuccessLine (fileLog env p file)) = length (fileDownloads env p file)"
proof (cases "decoded file")
  case (Inl e)
  then show ?thesis
    by (simp add: fileLog_def fileDownloads_def processSingleFile_def isResultLine_def)
next
  case (Inr buffer)
  show ?thesis
  proof (cases "getChannelData buffer 0")
    case (Inl e)
    with Inr show ?thesis
      by (simp add: fileLog_def fileDownloads_def processSingleFile_def isResultLine_def)
  next
    case ch: (Inr ch0)
    let ?s = "adjustedStart env buffer ch0 p" and ?e = "adjustedEnd env buffer ch0 p"
    show ?thesis
    proof (cases "indexLe ?e ?s")
      case True
      with Inr ch show ?thesis
        by (simp add: fileLog_def fileDownloads_def processSingleFile_def isResultLine_def)
    next
      case False
      let ?lg1 = "[LogStart (name file), LogRequested (startSec p) (endSec p),
                   LogAdjusted ?s ?e (sampleRate buffer), LogSamples ?s ?e]"
      show ?thesis
      proof (cases "extractMonoSamplesNum env buffer ?s ?e")
        case (Inl e)
        with Inr ch False show ?thesis
          by (simp add: fileLog_def fileDownloads_def processSingleFile_def isResultLine_def
              Let_def)
      next
        case m: (Inr m)
        have eq: "processSingleFile env file p =
            encodeAndDownload env file p (sampleRate buffer) m ?lg1"
          using Inr ch False m by (simp add: processSingleFile_def Let_def)
        have a: "filter isStartLine ?lg1 = [LogStart (name file)]"
          and b: "filter isResultLine ?lg1 = []"
          by (simp_all add: isResultLine_def)
        from encodeAndDownload_shape [OF a b, where env = env and p = p and sr = "sampleRate buffer"
            and m = m]
        show ?thesis
          by (simp add: fileLog_def fileDownloads_def eq)
      qed
    qed
  qed
qed


text \<open>
  Claim C8. For every batch that passes the validation, the log of the run is the two
  header lines, then for each file in input order the lines of that file alone
  (\<open>fileLog\<close>, which depends on no other file), then the closing line; the downloads are
  those of the files, in input order. So the log has one start line per file, in input
  order, and exactly one result line per file (a completed download or a failure), and as
  many completed downloads as downloads: a file that fails neither stops nor reorders the
  others.
\<close>

theorem runBtnClick_results:
  assumes "length files \<noteq> 0" and "js_gt e s"
  shows "logText (runBtnClick env files s e r f q) =
           [LogFileCount (length files), LogSettings s e r f] @
           concat (map (fileLog env (batchParams s e r f q)) files) @ [LogAllDone] \<and>
         downloads (runBtnClick env files s e r f q) =
           concat (map (fileDownloads env (batchParams s e r f q)) files) \<and>
         filter isStartLine (logText (runBtnClick env files s e r f q)) =
           map (\<lambda>file. LogStart (name file)) files \<and>
         length (filter isResultLine (logText (runBtnClick env files s e r f q))) =
           length files \<and>
         length (filter isSuccessLine (logText (runBtnClick env files s e r f q))) =
           length (downloads (runBtnClick env files s e r f q))"
proof -
  let ?p = "batchParams s e r f q"
  have lg: "logText (runBtnClick env files s e r f q) =
      [LogFileCount (length files), LogSettings s e r f] @
      concat (map (fileLog env ?p) files) @ [LogAllDone]"
    and dl: "downloads (runBtnClick env files s e r f q) =
      concat (map (fileDownloads env ?p) files)"
    using assms by (simp_all add: runBtnClick_valid runFiles_eq Let_def)
  have st: "filter isStartLine (concat (map (fileLog env ?p) fs)) =
      map (\<lambda>file. LogStart (name file)) fs" for fs
    by (induction fs) (simp_all add: fileLog_shape)
  have rs: "length (filter isResultLine (concat (map (fileLog env ?p) fs))) = length fs" for fs
    by (induction fs) (simp_all add: fileLog_shape)
  have su: "length (filter isSuccessLine (concat (map (fileLog env ?p) fs))) =
      length (concat (map (fileDownloads env ?p) fs))" for fs
    by (induction fs) (simp_all add: fileLog_shape)
  show ?thesis
    unfolding lg dl by (simp add: st rs su isResultLine_def)
qed

text \<open>
  Claim C7, amended. For every file that decodes and whose adjusted end index is less than
  or equal to its adjusted start index, \<open>processSingleFile\<close> returns without throwing after
  two lines, the start line and a failure line that names the file (and no index); it
  does not downmix or encode and starts no download, and the batch goes on with the next
  file.
\<close>

theorem processSingleFile_rejected:
  assumes "decoded file = Inr buffer" and "getChannelData buffer 0 = Inr samplesCh0"
    and "indexLe (adjustedEnd env buffer samplesCh0 p) (adjustedStart env buffer samplesCh0 p)"
  shows "processSingleFile env file p =
           ([LogStart (name file), LogRangeError (name file)], Inr None) \<and>
         runFiles env p (file # files) pg =
           runFiles env p files
             (pg\<lparr>logText := logText pg @ [LogStart (name file), LogRangeError (name file)]\<rparr>)"
proof -
  have "processSingleFile env file p =
      ([LogStart (name file), LogRangeError (name file)], Inr None)"
    using assms by (simp add: processSingleFile_def)
  then show ?thesis by (simp add: runFile_def)
qed


lemma round64_8000: "roundBinary 53 (- 1022) 1023 8000 = Fin 8000"
proof -
  have e: "ilog2 \<bar>8000\<bar> = 12" by (simp add: ilog2_def bitLength.simps)
  show ?thesis
    unfolding roundBinary_def e Let_def by (simp add: scaleBy_def roundHalfEven_def Let_def)
qed

lemma round64_16000: "roundBinary 53 (- 1022) 1023 16000 = Fin 16000"
proof -
  have e: "ilog2 \<bar>16000\<bar> = 13" by (simp add: ilog2_def bitLength.simps)
  show ?thesis
    unfolding roundBinary_def e Let_def by (simp add: scaleBy_def roundHalfEven_def Let_def)
qed

lemma round64_0: "roundBinary 53 (- 1022) 1023 0 = Fin 0"
  by (simp add: roundBinary_def)

lemmas rawIndex_eval =
  rawIndex_def js_mul64_def ieeeHost_def round64_0 round64_8000 round64_16000

lemmas search_eval =
  findNearestZeroCrossNum_def findNearestZeroCross_def zcLoop.simps isZeroCross_def
  sampleAt_def js_gt_def

lemma adjusted_shortBuffer:
  "adjustedStart ieeeHost shortBuffer [Fin (1 / 2)] lateRange = Some 0"
  "adjustedEnd ieeeHost shortBuffer [Fin (1 / 2)] lateRange = Some 0"
  by (simp_all add: adjustedStart_def adjustedEnd_def shortBuffer_def lateRange_def
      rawIndex_eval search_eval)

lemma adjusted_toneBuffer:
  "adjustedStart ieeeHost toneBuffer [Fin (1 / 2), Fin (1 / 4), Fin (1 / 2)] lateRange = Some 2"
  "adjustedEnd ieeeHost toneBuffer [Fin (1 / 2), Fin (1 / 4), Fin (1 / 2)] lateRange = Some 2"
  by (simp_all add: adjustedStart_def adjustedEnd_def toneBuffer_def lateRange_def
      rawIndex_eval search_eval)

text \<open>
  Claim C7 as it is worded says that the failure reports the adjusted indices. Line 158
  logs the name of the file and a fixed sentence: a one-sample buffer, rejected with the
  adjusted indices 0 and 0, and a three-sample buffer, rejected with the adjusted indices
  2 and 2, give the same lines under the same name.
\<close>

theorem processSingleFile_rejected_counterexample:
  "adjustedStart ieeeHost shortBuffer [Fin (1 / 2)] lateRange = Some 0 \<and>
   adjustedEnd ieeeHost shortBuffer [Fin (1 / 2)] lateRange = Some 0 \<and>
   adjustedStart ieeeHost toneBuffer [Fin (1 / 2), Fin (1 / 4), Fin (1 / 2)] lateRange = Some 2 \<and>
   adjustedEnd ieeeHost toneBuffer [Fin (1 / 2), Fin (1 / 4), Fin (1 / 2)] lateRange = Some 2 \<and>
   processSingleFile ieeeHost \<lparr>name = ''a.wav'', decoded = Inr shortBuffer\<rparr> lateRange =
     ([LogStart ''a.wav'', LogRangeError ''a.wav''], Inr None) \<and>
   processSingleFile ieeeHost \<lparr>name = ''a.wav'', decoded = Inr toneBuffer\<rparr> lateRange =
     ([LogStart ''a.wav'', LogRangeError ''a.wav''], Inr None)"
proof -
  have 1: "getChannelData shortBuffer 0 = Inr [Fin (1 / 2)]"
    and 2: "getChannelData toneBuffer 0 = Inr [Fin (1 / 2), Fin (1 / 4), Fin (1 / 2)]"
    by (simp_all add: getChannelData_def numberOfChannels_def shortBuffer_def toneBuffer_def)
  show ?thesis
    by (simp add: processSingleFile_def 1 2 adjusted_shortBuffer adjusted_toneBuffer indexLe_def)
qed

text \<open>A rejected file followed by a file that fails to decode: both are run.\<close>

theorem processSingleFile_rejected_witness:
  "runFiles ieeeHost lateRange
     [\<lparr>name = ''a.wav'', decoded = Inr toneBuffer\<rparr>,
      \<lparr>name = ''b.wav'', decoded = Inl (Thrown ''EncodingError'')\<rparr>]
     \<lparr>logText = [], downloads = []\<rparr> =
   \<lparr>logText = [LogStart ''a.wav'', LogRangeError ''a.wav'',
               LogStart ''b.wav'', LogException ''b.wav'' (Thrown ''EncodingError'')],
    downloads = []\<rparr>"
proof -
  have 2: "getChannelData toneBuffer 0 = Inr [Fin (1 / 2), Fin (1 / 4), Fin (1 / 2)]"
    by (simp add: getChannelData_def numberOfChannels_def toneBuffer_def)
  have 3: "indexLe
      (adjustedEnd ieeeHost toneBuffer [Fin (1 / 2), Fin (1 / 4), Fin (1 / 2)] lateRange)
      (adjustedStart ieeeHost toneBuffer [Fin (1 / 2), Fin (1 / 4), Fin (1 / 2)] lateRange)"
    by (simp add: adjusted_toneBuffer indexLe_def)
  show ?thesis
    using processSingleFile_rejected
      [of "\<lparr>name = ''a.wav'', decoded = Inr toneBuffer\<rparr>" toneBuffer
        "[Fin (1 / 2), Fin (1 / 4), Fin (1 / 2)]" ieeeHost lateRange
        "[\<lparr>name = ''b.wav'', decoded = Inl (Thrown ''EncodingError'')\<rparr>]"
        "\<lparr>logText = [], downloads = []\<rparr>", OF _ 2 3]
    by (simp add: runFile_def processSingleFile_def)
qed


lemma process_tone:
  "processSingleFile ieeeHost \<lparr>name = ''a.wav'', decoded = Inr toneBuffer\<rparr> firstSecond =
     ([LogStart ''a.wav'', LogRequested (Fin 0) (Fin 1), LogAdjusted (Some 0) (Some 2) 8000,
       LogSamples (Some 0) (Some 2), LogDone ''a_loop.wav''],
      Inr (Some (''a_loop.wav'',
                 Blob [wavLayout [Fin (1 / 2), Fin (1 / 4)] 8000] ''audio/wav'')))"
proof -
  have ch: "getChannelData toneBuffer 0 = Inr [Fin (1 / 2), Fin (1 / 4), Fin (1 / 2)]"
    by (simp add: getChannelData_def numberOfChannels_def toneBuffer_def)
  have a: "adjustedStart ieeeHost toneBuffer [Fin (1 / 2), Fin (1 / 4), Fin (1 / 2)] firstSecond
      = Some 0"
    and b: "adjustedEnd ieeeHost toneBuffer [Fin (1 / 2), Fin (1 / 4), Fin (1 / 2)] firstSecond
      = Some 2"
    by (simp_all add: adjustedStart_def adjustedEnd_def toneBuffer_def firstSecond_def
        batchParams_def rawIndex_eval search_eval)
  have m: "extractMonoSamplesNum ieeeHost toneBuffer (Some 0) (Some 2) =
      Inr [Fin (1 / 2), Fin (1 / 4)]"
    by (simp add: extractMonoSamplesNum_def extractMonoSamples_def numberOfChannels_def
        getChannelData_def toneBuffer_def andThen_def subarray_def typedArraySet_def Let_def)
  have n: "downloadName ''a.wav'' ''wav'' = ''a_loop.wav''"
    by (simp add: downloadName_def stripExtension_def Let_def)
  have sr: "sampleRate toneBuffer = 8000" by (simp add: toneBuffer_def)
  have p: "outFormat firstSecond = ''wav''" "startSec firstSecond = Fin 0"
    "endSec firstSecond = Fin 1"
    by (simp_all add: firstSecond_def batchParams_def)
  show ?thesis
    by (simp add: processSingleFile_def ch a b m indexLe_def encodeAndDownload_def
        monoFloatToWavBlob_eq n sr p Let_def)
qed

lemma process_ramp:
  "processSingleFile ieeeHost \<lparr>name = ''c.flac'', decoded = Inr rampBuffer\<rparr> firstSecond =
     ([LogStart ''c.flac'', LogRequested (Fin 0) (Fin 1), LogAdjusted (Some 0) (Some 3) 8000,
       LogSamples (Some 0) (Some 3), LogDone ''c_loop.wav''],
      Inr (Some (''c_loop.wav'',
                 Blob [wavLayout [Fin 1, Fin 1, Fin (1 / 2)] 8000] ''audio/wav'')))"
proof -
  have ch: "getChannelData rampBuffer 0 = Inr [Fin 1, Fin 1, Fin (1 / 2), Fin 1]"
    by (simp add: getChannelData_def numberOfChannels_def rampBuffer_def)
  have a: "adjustedStart ieeeHost rampBuffer [Fin 1, Fin 1, Fin (1 / 2), Fin 1] firstSecond
      = Some 0"
    and b: "adjustedEnd ieeeHost rampBuffer [Fin 1, Fin 1, Fin (1 / 2), Fin 1] firstSecond
      = Some 3"
    by (simp_all add: adjustedStart_def adjustedEnd_def rampBuffer_def firstSecond_def
        batchParams_def rawIndex_eval search_eval)
  have m: "extractMonoSamplesNum ieeeHost rampBuffer (Some 0) (Some 3) =
      Inr [Fin 1, Fin 1, Fin (1 / 2)]"
    by (simp add: extractMonoSamplesNum_def extractMonoSamples_def numberOfChannels_def
        getChannelData_def rampBuffer_def andThen_def subarray_def typedArraySet_def Let_def)
  have n: "downloadName ''c.flac'' ''wav'' = ''c_loop.wav''"
    by (simp add: downloadName_def stripExtension_def Let_def)
  have sr: "sampleRate rampBuffer = 8000" by (simp add: rampBuffer_def)
  have p: "outFormat firstSecond = ''wav''" "startSec firstSecond = Fin 0"
    "endSec firstSecond = Fin 1"
    by (simp_all add: firstSecond_def batchParams_def)
  show ?thesis
    by (simp add: processSingleFile_def ch a b m indexLe_def encodeAndDownload_def
        monoFloatToWavBlob_eq n sr p Let_def)
qed

lemma process_undecodable:
  "processSingleFile env \<lparr>name = n, decoded = Inl e\<rparr> p = ([LogStart n], Inl e)"
  by (simp add: processSingleFile_def)

text \<open>
  Three files, of which the second fails to decode: the first and the third are written
  as wav files, the second is logged with what the decoder threw, in input order.
\<close>

theorem runBtnClick_results_witness:
  "runBtnClick ieeeHost
     [\<lparr>name = ''a.wav'', decoded = Inr toneBuffer\<rparr>,
      \<lparr>name = ''b.mp3'', decoded = Inl (Thrown ''EncodingError'')\<rparr>,
      \<lparr>name = ''c.flac'', decoded = Inr rampBuffer\<rparr>]
     (Fin 0) (Fin 1) (Some 4000) ''wav'' None =
   \<lparr>logText =
      [LogFileCount 3, LogSettings (Fin 0) (Fin 1) (Some 4000) ''wav'',
       LogStart ''a.wav'', LogRequested (Fin 0) (Fin 1), LogAdjusted (Some 0) (Some 2) 8000,
       LogSamples (Some 0) (Some 2), LogDone ''a_loop.wav'',
       LogStart ''b.mp3'', LogException ''b.mp3'' (Thrown ''EncodingError''),
       LogStart ''c.flac'', LogRequested (Fin 0) (Fin 1), LogAdjusted (Some 0) (Some 3) 8000,
       LogSamples (Some 0) (Some 3), LogDone ''c_loop.wav'',
       LogAllDone],
    downloads =
      [(''a_loop.wav'', Blob [wavLayout [Fin (1 / 2), Fin (1 / 4)] 8000] ''audio/wav''),
       (''c_loop.wav'', Blob [wavLayout [Fin 1, Fin 1, Fin (1 / 2)] 8000] ''audio/wav'')]\<rparr>"
proof -
  let ?files = "[\<lparr>name = ''a.wav'', decoded = Inr toneBuffer\<rparr>,
      \<lparr>name = ''b.mp3'', decoded = Inl (Thrown ''EncodingError'')\<rparr>,
      \<lparr>name = ''c.flac'', decoded = Inr rampBuffer\<rparr>]"
  have v: "length ?files \<noteq> 0" "js_gt (Fin 1) (Fin 0)" by (simp_all add: js_gt_def)
  have eq: "pg = \<lparr>logText = logText pg, downloads = downloads pg\<rparr>" for pg :: page
    by simp
  show ?thesis
    using runBtnClick_results [OF v, of ieeeHost "Some 4000" "''wav''" None]
    by (subst eq)
       (simp add: fileLog_def fileDownloads_def firstSecond_def [symmetric] process_tone
          process_ramp process_undecodable)
qed

text \<open>
  The validation with no file, with an end equal to the start, with a start that is NaN,
  and the quality for an unparseable field, for 15 and for -2.
\<close>

theorem runBtnClick_validation_witness:
  "runBtnClick ieeeHost [] (Fin 0) (Fin 1) (Some 4000) ''wav'' None =
     \<lparr>logText = [LogNoFiles], downloads = []\<rparr> \<and>
   runBtnClick ieeeHost [\<lparr>name = ''a.wav'', decoded = Inr toneBuffer\<rparr>]
       (Fin 2) (Fin 2) (Some 4000) ''wav'' None =
     \<lparr>logText = [LogBadRange], downloads = []\<rparr> \<and>
   runBtnClick ieeeHost [\<lparr>name = ''a.wav'', decoded = Inr toneBuffer\<rparr>]
       NaN (Fin 1) (Some 4000) ''wav'' None =
     \<lparr>logText = [LogBadRange], downloads = []\<rparr> \<and>
   clampQuality None = 3 \<and> clampQuality (Some 15) = 10 \<and> clampQuality (Some (- 2)) = 0"
  using runBtnClick_validation [of "[]" ieeeHost "Fin 0" "Fin 1" "Some 4000" "''wav''" None 15]
    runBtnClick_validation [of "[\<lparr>name = ''a.wav'', decoded = Inr toneBuffer\<rparr>]" ieeeHost
      "Fin 2" "Fin 2" "Some 4000" "''wav''" None "- 2"]
    runBtnClick_validation [of "[\<lparr>name = ''a.wav'', decoded = Inr toneBuffer\<rparr>]" ieeeHost
      NaN "Fin 1" "Some 4000" "''wav''" None 15]
  by (simp add: js_gt_def)

end
